theory Spec2Isabelle
  imports Main "HOL-Library.Word" "HOL-Library.Multiset"
begin

unbundle bit_operations_syntax

section \<open>Go values: errors, panics, integers, slices\<close>

text \<open>
  A Go function that returns \<open>(x, error)\<close> is modelled with the result type
  \<open>error + 'a\<close>: \<open>Inl (Err msg)\<close> is a returned error value, \<open>Inl (Panic p)\<close> is a
  run-time panic that unwinds the call, \<open>Inr x\<close> is a normal return.
\<close>

datatype panic = IndexOutOfRange | DivideByZero | MakeSliceLen | TypeAssertion | PanicValue string

datatype error = Err string | Panic panic

definition andThen :: "error + 'a \<Rightarrow> ('a \<Rightarrow> error + 'b) \<Rightarrow> error + 'b" where
  "andThen m f = (case m of Inl e \<Rightarrow> Inl e | Inr x \<Rightarrow> f x)"

text \<open>A loop that fills a slice element by element and stops at the first failure.\<close>

fun mapE :: "('a \<Rightarrow> error + 'b) \<Rightarrow> 'a list \<Rightarrow> error + 'b list" where
  "mapE f [] = Inr []"
| "mapE f (x # xs) = andThen (f x) (\<lambda>y. andThen (mapE f xs) (\<lambda>ys. Inr (y # ys)))"

text \<open>\<open>xs[i]\<close>: an index outside the slice panics.\<close>

definition index :: "'a list \<Rightarrow> int \<Rightarrow> error + 'a" where
  "index xs i = (if 0 \<le> i \<and> i < int (length xs) then Inr (xs ! nat i)
                 else Inl (Panic IndexOutOfRange))"

text \<open>
  Go's \<open>/\<close> and \<open>%\<close> on \<open>int\<close> truncate towards zero and panic on a zero divisor.
  Where a quantity is not bounded by the code (the padding of a Type-1 key, the counts of
  a Type-2 key) the wrap-around of the 64-bit \<open>int\<close> is written out with \<open>wrap64\<close>;
  elsewhere \<open>int\<close> arithmetic is on unbounded integers: the quantities are pixel counts
  and key fields the code has bounded.
\<close>

definition go_div :: "int \<Rightarrow> int \<Rightarrow> int" where
  "go_div a b = sgn a * sgn b * (\<bar>a\<bar> div \<bar>b\<bar>)"

definition go_mod :: "int \<Rightarrow> int \<Rightarrow> int" where
  "go_mod a b = a - b * go_div a b"

definition divE :: "int \<Rightarrow> int \<Rightarrow> error + int" where
  "divE a b = (if b = 0 then Inl (Panic DivideByZero) else Inr (go_div a b))"

definition modE :: "int \<Rightarrow> int \<Rightarrow> error + int" where
  "modE a b = (if b = 0 then Inl (Panic DivideByZero) else Inr (go_mod a b))"

text \<open>A 64-bit \<open>int\<close> result, where the wrap-around is written out.\<close>

definition wrap64 :: "int \<Rightarrow> int" where
  "wrap64 x = (x + 2 ^ 63) mod 2 ^ 64 - 2 ^ 63"

section \<open>Go strings and \<open>range\<close> over a string\<close>

text \<open>
  A Go string is a sequence of bytes, modelled by \<open>string\<close> (a list of 8-bit characters).
  \<open>for i, c := range s\<close> decodes the bytes as UTF-8: it yields the byte offset \<open>i\<close> of
  each encoded code point and the code point \<open>c\<close>, and the replacement code point 65533
  with width 1 for a byte that starts no valid encoding.
\<close>

definition runeError :: nat where
  "runeError = 65533"

definition isCont :: "nat \<Rightarrow> bool" where
  "isCont b = (128 \<le> b \<and> b \<le> 191)"

text \<open>\<open>decoderune\<close> returns the code point at the head of a byte sequence and its width.\<close>

fun decoderune :: "nat list \<Rightarrow> nat \<times> nat" where
  "decoderune [] = (runeError, 1)"
| "decoderune (b0 # bs) =
    (if b0 < 128 then (b0, 1)
     else if 192 \<le> b0 \<and> b0 < 224 then
       (case bs of
          b1 # _ \<Rightarrow>
            (if isCont b1 then
               (let r = (b0 mod 32) * 64 + b1 mod 64
                in if 127 < r then (r, 2) else (runeError, 1))
             else (runeError, 1))
        | _ \<Rightarrow> (runeError, 1))
     else if 224 \<le> b0 \<and> b0 < 240 then
       (case bs of
          b1 # b2 # _ \<Rightarrow>
            (if isCont b1 \<and> isCont b2 then
               (let r = (b0 mod 16) * 4096 + (b1 mod 64) * 64 + b2 mod 64
                in if 2047 < r \<and> \<not> (55296 \<le> r \<and> r \<le> 57343) then (r, 3)
                   else (runeError, 1))
             else (runeError, 1))
        | _ \<Rightarrow> (runeError, 1))
     else if 240 \<le> b0 \<and> b0 < 248 then
       (case bs of
          b1 # b2 # b3 # _ \<Rightarrow>
            (if isCont b1 \<and> isCont b2 \<and> isCont b3 then
               (let r = (b0 mod 8) * 262144 + (b1 mod 64) * 4096 + (b2 mod 64) * 64 + b3 mod 64
                in if 65535 < r \<and> r \<le> 1114111 then (r, 4) else (runeError, 1))
             else (runeError, 1))
        | _ \<Rightarrow> (runeError, 1))
     else (runeError, 1))"

text \<open>The loop of \<open>range\<close>: the pairs (byte offset, code point), from offset \<open>i\<close> on.\<close>

fun range_from :: "nat \<Rightarrow> nat list \<Rightarrow> (nat \<times> nat) list" where
  "range_from i [] = []"
| "range_from i (b # bs) =
    (case decoderune (b # bs) of
       (r, w) \<Rightarrow> (i, r) # range_from (i + w) (drop (w - 1) bs))"

definition go_range :: "string \<Rightarrow> (nat \<times> nat) list" where
  "go_range s = range_from 0 (map of_char s)"

section \<open>The key-table cipher (plugins/binb, \<open>decryptData\<close>)\<close>

text \<open>The closure \<open>makeKey\<close>: the 32-bit seed folded from \<open>cid + ":" + k\<close>.\<close>

definition makeKey :: "string \<Rightarrow> string \<Rightarrow> 32 word" where
  "makeKey cid k =
    (let s = cid @ '':'' @ k;
         res = foldl (\<lambda>res (i, char). res + push_bit (i mod 16) (word_of_nat char)) 0 (go_range s);
         res' = res AND 0x7FFFFFFF
     in if res' \<noteq> 0 then res' else 0x12345678)"

text \<open>One step of the keystream: \<open>key = (key >> 1) ^ (-(key & 1) & 0x48200004)\<close>.\<close>

definition advance :: "32 word \<Rightarrow> 32 word" where
  "advance key = drop_bit 1 key XOR (- (key AND 1) AND 0x48200004)"

text \<open>The byte written for one character: \<open>byte(((uint32(char) - 0x20 + key) % 0x5E) + 0x20)\<close>.\<close>

definition combine :: "32 word \<Rightarrow> nat \<Rightarrow> 8 word" where
  "combine key char = ucast ((((word_of_nat char :: 32 word) - 0x20 + key) mod 0x5E) + 0x20)"

fun decryptLoop :: "32 word \<Rightarrow> nat list \<Rightarrow> 8 word list" where
  "decryptLoop key [] = []"
| "decryptLoop key (char # cs) =
    (let key' = advance key in combine key' char # decryptLoop key' cs)"

text \<open>
  \<open>decryptData\<close> returns \<open>(buf.Bytes(), nil)\<close> on every path: writing a byte to a
  \<open>bytes.Buffer\<close> returns no error.
\<close>

definition decryptData :: "string \<Rightarrow> string \<Rightarrow> string \<Rightarrow> error + 8 word list" where
  "decryptData cid k data = Inr (decryptLoop (makeKey cid k) (map snd (go_range data)))"


text \<open>The state of the keystream after \<open>j\<close> steps from the seed.\<close>

definition keystate :: "string \<Rightarrow> string \<Rightarrow> nat \<Rightarrow> 32 word" where
  "keystate cid k j = (advance ^^ j) (makeKey cid k)"

section \<open>BinB scramble keys (plugins/binb/scrambling.go)\<close>

datatype scrambleKeyType = typeUnset | type1 | type2

text \<open>A single rectangle in a scrambled image; a point is a pair \<open>(X, Y)\<close>.\<close>

record scrambleRectangle =
  r_src :: "int \<times> int"
  r_dst :: "int \<times> int"
  r_width :: int
  r_height :: int

text \<open>All the rectangles for a scrambled image.\<close>

record scrambleRectanglesCollection =
  col_rectangles :: "scrambleRectangle list"
  col_srcWidth :: int
  col_srcHeight :: int
  col_dstWidth :: int
  col_dstHeight :: int

record scrambleDataType1 =
  d1_h :: int
  d1_v :: int
  d1_padding :: int
  d1_src :: string
  d1_dst :: string

record scrambleDataType2Piece =
  pc_pos :: "int \<times> int"
  pc_width :: int
  pc_height :: int

record scrambleDataType2 =
  d2_ndx :: int
  d2_ndy :: int
  d2_pieces :: "scrambleDataType2Piece list"

record scrambleDataType2Pair =
  pair_c :: scrambleDataType2
  pair_p :: scrambleDataType2

text \<open>An entry of \<open>Descrambler.data\<close> (an \<open>interface{}\<close> holding one of the two shapes).\<close>

datatype keyData = Type1Data scrambleDataType1 | Type2Data scrambleDataType2Pair

record Descrambler =
  ds_Ctbl :: "string list"
  ds_Ptbl :: "string list"
  ds_keyType :: scrambleKeyType
  ds_data :: "keyData list"
  ds_rectangleCollections :: "scrambleRectanglesCollection option list list"

subsection \<open>The two key patterns\<close>

definition isDigit :: "char \<Rightarrow> bool" where
  "isDigit c = (48 \<le> (of_char c :: nat) \<and> (of_char c :: nat) \<le> 57)"

definition isUpper :: "char \<Rightarrow> bool" where
  "isUpper c = (65 \<le> (of_char c :: nat) \<and> (of_char c :: nat) \<le> 90)"

definition isLower :: "char \<Rightarrow> bool" where
  "isLower c = (97 \<le> (of_char c :: nat) \<and> (of_char c :: nat) \<le> 122)"

text \<open>The class \<open>[-_0-9A-Za-z]\<close>.\<close>

definition isType1Payload :: "char \<Rightarrow> bool" where
  "isType1Payload c = (c = CHR ''-'' \<or> c = CHR ''_'' \<or> isDigit c \<or> isUpper c \<or> isLower c)"

text \<open>
  \<open>[0-9]+\<close> at the head of a string, followed in both patterns by a character that is no
  digit: the only match takes every leading digit. The result is the group and the rest.
\<close>

definition digits :: "string \<Rightarrow> (string \<times> string) option" where
  "digits s = (let d = takeWhile isDigit s
               in if d = [] then None else Some (d, dropWhile isDigit s))"

text \<open>
  \<open>reType1Key.FindStringSubmatch\<close> for \<open>^=([0-9]+)-([0-9]+)([-+])([0-9]+)-([-_0-9A-Za-z]+)$\<close>:
  \<open>None\<close> is the nil slice of no match, otherwise the whole match and the five groups.
\<close>

definition reType1Key :: "string \<Rightarrow> string list option" where
  "reType1Key s =
    (case s of
       [] \<Rightarrow> None
     | e # s1 \<Rightarrow>
        if e \<noteq> CHR ''='' then None
        else (case digits s1 of
           None \<Rightarrow> None
         | Some (g1, r1) \<Rightarrow>
            (case r1 of
               [] \<Rightarrow> None
             | m1 # s2 \<Rightarrow>
                if m1 \<noteq> CHR ''-'' then None
                else (case digits s2 of
                   None \<Rightarrow> None
                 | Some (g2, r2) \<Rightarrow>
                    (case r2 of
                       [] \<Rightarrow> None
                     | g3 # s3 \<Rightarrow>
                        if g3 \<noteq> CHR ''-'' \<and> g3 \<noteq> CHR ''+'' then None
                        else (case digits s3 of
                           None \<Rightarrow> None
                         | Some (g4, r4) \<Rightarrow>
                            (case r4 of
                               [] \<Rightarrow> None
                             | m2 # g5 \<Rightarrow>
                                if m2 \<noteq> CHR ''-'' \<or> g5 = [] \<or> \<not> list_all isType1Payload g5
                                then None
                                else Some [s, g1, g2, [g3], g4, g5])))))))"

text \<open>\<open>reType2Key.FindStringSubmatch\<close> for \<open>^([0-9]+?)-([0-9]+?)-([A-Za-z]+)$\<close>.\<close>

definition reType2Key :: "string \<Rightarrow> string list option" where
  "reType2Key s =
    (case digits s of
       None \<Rightarrow> None
     | Some (g1, r1) \<Rightarrow>
        (case r1 of
           [] \<Rightarrow> None
         | m1 # s2 \<Rightarrow>
            if m1 \<noteq> CHR ''-'' then None
            else (case digits s2 of
               None \<Rightarrow> None
             | Some (g2, r2) \<Rightarrow>
                (case r2 of
                   [] \<Rightarrow> None
                 | m2 # g3 \<Rightarrow>
                    if m2 \<noteq> CHR ''-'' \<or> g3 = [] \<or> \<not> list_all (\<lambda>c. isUpper c \<or> isLower c) g3
                    then None
                    else Some [s, g1, g2, g3]))))"

text \<open>
  \<open>strconv.Atoi\<close> on a string of decimal digits, its error dropped as the callers do
  (\<open>h, _ := strconv.Atoi(c[1])\<close>): the value, or the largest 64-bit \<open>int\<close> when the value
  is out of range.
\<close>

definition Atoi :: "string \<Rightarrow> int" where
  "Atoi s = min (foldl (\<lambda>a c. 10 * a + (int (of_char c) - 48)) 0 s) (2 ^ 63 - 1)"

subsection \<open>\<open>processType1\<close> and \<open>processType2\<close>\<close>

text \<open>\<open>processType1(i)\<close> reads \<open>ds.Ctbl[i]\<close> and \<open>ds.Ptbl[i]\<close>.\<close>

definition processType1 :: "Descrambler \<Rightarrow> int \<Rightarrow> error + scrambleDataType1" where
  "processType1 ds i =
    andThen (index (ds_Ctbl ds) i) (\<lambda>ckey.
    andThen (index (ds_Ptbl ds) i) (\<lambda>pkey.
      case (reType1Key ckey, reType1Key pkey) of
        (Some c, Some p) \<Rightarrow>
          if c ! 1 \<noteq> p ! 1 \<or> c ! 2 \<noteq> p ! 2 \<or> c ! 4 \<noteq> p ! 4 \<or> c ! 3 \<noteq> ''+'' \<or> p ! 3 \<noteq> ''-''
          then Inl (Err ''Invalid type 1 scramble key.'')
          else
            (let h = Atoi (c ! 1); v = Atoi (c ! 2); padding = Atoi (c ! 4)
             in if h > 8 \<or> v > 8 \<or> h * v > 64 then Inl (Err ''Invalid h and v values.'')
                else
                  (let src = c ! 5; dst = p ! 5; target_len = h + v + h * v
                   in if int (length src) \<noteq> target_len \<or> int (length dst) \<noteq> target_len
                      then Inl (Err ''Invalid h or v length.'')
                      else Inr \<lparr>d1_h = h, d1_v = v, d1_padding = padding,
                                d1_src = src, d1_dst = dst\<rparr>))
      | _ \<Rightarrow> Inl (Err ''Invalid type 1 scramble key.'')))"

definition scrambleAlphabet :: string where
  "scrambleAlphabet = ''ABCDEFGHIJKLMNOPQRSTUVWXYZ''"

text \<open>\<open>strings.IndexByte\<close>: the index of the first occurrence, or -1.\<close>

fun IndexByte :: "string \<Rightarrow> char \<Rightarrow> int" where
  "IndexByte [] c = -1"
| "IndexByte (x # xs) c =
    (if x = c then 0 else (let r = IndexByte xs c in if r = -1 then -1 else r + 1))"

definition ToLower :: "string \<Rightarrow> string" where
  "ToLower s = map (\<lambda>c. if isUpper c then char_of (of_char c + (32 :: nat)) else c) s"

definition decodeType2Key :: "char \<Rightarrow> int" where
  "decodeType2Key char =
    (let c = IndexByte scrambleAlphabet char
     in if c = -1 then IndexByte (ToLower scrambleAlphabet) char * 2 else 1 + c * 2)"

text \<open>The body of the loop over \<open>pieces\<close>, for index \<open>i\<close>.\<close>

definition type2Piece :: "string \<Rightarrow> int \<Rightarrow> int \<Rightarrow> int \<Rightarrow> int \<Rightarrow> int \<Rightarrow> error + scrambleDataType2Piece" where
  "type2Piece dat f g h j i =
    andThen (index dat (i * 2)) (\<lambda>cx.
    andThen (index dat (i * 2 + 1)) (\<lambda>cy.
      let pos = (decodeType2Key cx, decodeType2Key cy);
          (w, ht) = (if i \<le> f then (2, 2)
                     else if i \<le> g then (2, 1)
                     else if i \<le> h then (1, 2)
                     else if i \<le> j then (1, 1)
                     else (0, 0))
      in Inr \<lparr>pc_pos = pos, pc_width = w, pc_height = ht\<rparr>))"

text \<open>
  \<open>processType2(key)\<close>. The products of \<open>ndx\<close> and \<open>ndy\<close> are 64-bit; \<open>make\<close> panics on a
  negative length.
\<close>

definition processType2 :: "string \<Rightarrow> error + scrambleDataType2" where
  "processType2 key =
    (case reType2Key key of
       None \<Rightarrow> Inl (Err ''Invalid format of a type 2 key.'')
     | Some re \<Rightarrow>
        (let nx = Atoi (re ! 1); ny = Atoi (re ! 2); dat = re ! 3
         in if int (length dat) \<noteq> wrap64 (wrap64 (nx * ny) * 2)
            then Inl (Err ''Invalid key. Key data length does not match the rest.'')
            else
              (let f = wrap64 (wrap64 ((nx - 1) * (ny - 1)) - 1);
                   g = wrap64 (f + (nx - 1));
                   h = wrap64 (g + (ny - 1));
                   j = wrap64 (h + 1);
                   n = wrap64 (nx * ny)
               in if n < 0 then Inl (Panic MakeSliceLen)
                  else andThen (mapE (type2Piece dat f g h j) [0..n - 1]) (\<lambda>ps.
                         Inr \<lparr>d2_ndx = nx, d2_ndy = ny, d2_pieces = ps\<rparr>))))"

subsection \<open>\<open>NewDescrambler\<close> and \<open>init\<close>\<close>

text \<open>\<open>s[0] == '='\<close> and \<open>startsWithDigit(s)\<close>: both read \<open>s[0]\<close>.\<close>

definition startsWithEq :: "string \<Rightarrow> error + bool" where
  "startsWithEq s = andThen (index s 0) (\<lambda>b. Inr (b = CHR ''=''))"

definition startsWithDigit :: "string \<Rightarrow> error + bool" where
  "startsWithDigit s = andThen (index s 0) (\<lambda>b. Inr (isDigit b))"

text \<open>\<open>f(a) && f(b)\<close>: the right operand is evaluated only when the left one is true.\<close>

definition bothE :: "(string \<Rightarrow> error + bool) \<Rightarrow> string \<Rightarrow> string \<Rightarrow> error + bool" where
  "bothE f a b = andThen (f a) (\<lambda>x. if x then f b else Inr False)"

text \<open>
  The first part of the body of the loop in \<open>init\<close>: the branch taken for pair \<open>i\<close>, giving
  \<open>newType\<close>, and \<open>data\<close> or \<open>err\<close>.
\<close>

definition initPair :: "Descrambler \<Rightarrow> int \<Rightarrow> error + scrambleKeyType \<times> (error + keyData)" where
  "initPair ds i =
    andThen (index (ds_Ctbl ds) i) (\<lambda>ckey.
    andThen (index (ds_Ptbl ds) i) (\<lambda>pkey.
    andThen (bothE startsWithEq ckey pkey) (\<lambda>isType1.
      if isType1 then
        (case processType1 ds i of
           Inl (Panic x) \<Rightarrow> Inl (Panic x)
         | Inl (Err e) \<Rightarrow> Inr (type1, Inl (Err e))
         | Inr d \<Rightarrow> Inr (type1, Inr (Type1Data d)))
      else
        andThen (bothE startsWithDigit ckey pkey) (\<lambda>isType2.
          if isType2 then
            (case processType2 ckey of
               Inl (Panic x) \<Rightarrow> Inl (Panic x)
             | Inl (Err e) \<Rightarrow> Inr (type2, Inl (Err e))
             | Inr c \<Rightarrow>
                (case processType2 pkey of
                   Inl (Panic x) \<Rightarrow> Inl (Panic x)
                 | Inl (Err e) \<Rightarrow> Inr (type2, Inl (Err e))
                 | Inr p \<Rightarrow> Inr (type2, Inr (Type2Data \<lparr>pair_c = c, pair_p = p\<rparr>))))
          else Inl (Err ''Unknown key type.'')))))"

text \<open>
  The loop of \<open>init\<close> from index \<open>i\<close>, with \<open>n\<close> iterations left: \<open>ds.data[i] = data\<close> appends
  to the entries set so far.
\<close>

fun initLoop :: "nat \<Rightarrow> int \<Rightarrow> Descrambler \<Rightarrow> error + Descrambler" where
  "initLoop 0 i ds = Inr ds"
| "initLoop (Suc n) i ds =
    andThen (initPair ds i) (\<lambda>(newType, r).
      if ds_keyType ds \<noteq> typeUnset \<and> ds_keyType ds \<noteq> newType then Inl (Err ''Mixed key types.'')
      else
        (case r of
           Inl e \<Rightarrow> Inl e
         | Inr d \<Rightarrow> initLoop n (i + 1) (ds\<lparr>ds_keyType := newType, ds_data := ds_data ds @ [d]\<rparr>)))"

definition init :: "Descrambler \<Rightarrow> error + Descrambler" where
  "init ds = initLoop (length (ds_Ctbl ds)) 0 ds"

definition NewDescrambler :: "string list \<Rightarrow> string list \<Rightarrow> error + Descrambler" where
  "NewDescrambler ctbl ptbl =
    (if length ctbl \<noteq> length ptbl then Inl (Err ''ctbl and ptbl need to be of the same size.'')
     else if length ctbl = 0 then Inl (Err ''ctbl cannot be empty.'')
     else if length ptbl = 0 then Inl (Err ''ptbl cannot be empty.'')
     else init \<lparr>ds_Ctbl = ctbl, ds_Ptbl = ptbl, ds_keyType = typeUnset, ds_data = [],
                 ds_rectangleCollections = replicate (length ctbl) (replicate (length ptbl) None)\<rparr>)"

subsection \<open>Rectangle derivation\<close>

text \<open>The table \<open>tnpConstants\<close>, one list for each line of its source text.\<close>

definition tnpConstants :: "int list" where
  "tnpConstants =
    [-1, -1, -1, -1, -1, -1, -1, -1, -1, -1, -1, -1, -1, -1, -1, -1, -1, -1, -1] @
    [-1, -1, -1, -1, -1, -1, -1, -1, -1, -1, -1, -1, -1, -1, -1, -1, -1, -1, -1] @
    [-1, -1, -1, -1, -1, -1, -1, 62, -1, -1, 52, 53, 54, 55, 56, 57, 58, 59, 60] @
    [61, -1, -1, -1, -1, -1, -1, -1, 0, 1, 2, 3, 4, 5, 6, 7, 8, 9, 10, 11, 12] @
    [13, 14, 15, 16, 17, 18, 19, 20, 21, 22, 23, 24, 25, -1, -1, -1, -1, 63, -1] @
    [26, 27, 28, 29, 30, 31, 32, 33, 34, 35, 36, 37, 38, 39, 40, 41, 42, 43, 44] @
    [45, 46, 47, 48, 49, 50, 51, -1, -1, -1, -1, -1]"

text \<open>\<open>tnpConstants[data[k]]\<close>.\<close>

definition tnpAt :: "string \<Rightarrow> int \<Rightarrow> error + int" where
  "tnpAt dat k = andThen (index dat k) (\<lambda>b. index tnpConstants (int (of_char b)))"

definition tnp :: "string \<Rightarrow> int \<Rightarrow> int \<Rightarrow> error + int list \<times> int list \<times> int list" where
  "tnp dat h v =
    (if h < 0 \<or> v < 0 then Inl (Panic MakeSliceLen)
     else andThen (mapE (\<lambda>i. tnpAt dat i) [0..h - 1]) (\<lambda>t.
          andThen (mapE (\<lambda>i. tnpAt dat (h + i)) [0..v - 1]) (\<lambda>n.
          andThen (mapE (\<lambda>i. tnpAt dat (h + v + i)) [0..h * v - 1]) (\<lambda>p.
            Inr (t, n, p)))))"

text \<open>The type assertions \<open>ds.data[k].(*scrambleDataType1)\<close> and \<open>.(*scrambleDataType2Pair)\<close>.\<close>

definition asType1 :: "keyData \<Rightarrow> error + scrambleDataType1" where
  "asType1 d = (case d of Type1Data x \<Rightarrow> Inr x | Type2Data _ \<Rightarrow> Inl (Panic TypeAssertion))"

definition asType2 :: "keyData \<Rightarrow> error + scrambleDataType2Pair" where
  "asType2 d = (case d of Type2Data x \<Rightarrow> Inr x | Type1Data _ \<Rightarrow> Inl (Panic TypeAssertion))"

text \<open>
  The working width and height of \<open>rectanglesType1\<close>. \<open>NewDescrambler\<close> bounds \<open>h\<close> and \<open>v\<close>
  but not the padding, so every sum and product is a 64-bit \<open>int\<close> that wraps around.
\<close>

definition type1Size :: "int \<Rightarrow> int \<Rightarrow> int \<Rightarrow> int \<Rightarrow> int \<Rightarrow> int \<times> int" where
  "type1Size h v padding srcWidth srcHeight =
    (let x = wrap64 (wrap64 (h * 2) * padding); y = wrap64 (wrap64 (v * 2) * padding)
     in if srcWidth \<ge> wrap64 (64 + x) \<and> srcHeight \<ge> wrap64 (64 + y)
           \<and> wrap64 (srcWidth * srcHeight) \<ge> wrap64 (wrap64 (320 + x) * wrap64 (320 + y))
        then (wrap64 (srcWidth - wrap64 (wrap64 (h * 2) * padding)),
              wrap64 (srcHeight - wrap64 (wrap64 (v * 2) * padding)))
        else (srcWidth, srcHeight))"

text \<open>The body of the loop over \<open>res\<close> in \<open>rectanglesType1\<close>, for index \<open>i\<close>.\<close>

definition type1Rect ::
  "int \<Rightarrow> int \<Rightarrow> int list \<Rightarrow> int list \<Rightarrow> int list \<Rightarrow> int list \<Rightarrow> int list
    \<Rightarrow> int \<Rightarrow> int \<Rightarrow> int \<Rightarrow> int \<Rightarrow> int \<Rightarrow> error + scrambleRectangle" where
  "type1Rect h padding srcT srcN dstT dstN p sliceWidth sliceHeight lastSliceWidth lastSliceHeight i =
    andThen (modE i h) (\<lambda>dstColumn.
    andThen (divE i h) (\<lambda>dstRow.
    andThen (index dstN dstRow) (\<lambda>dstNr.
    andThen (index dstT dstColumn) (\<lambda>dstTc.
    andThen (index p i) (\<lambda>pi.
    andThen (modE pi h) (\<lambda>srcColumn.
    andThen (divE pi h) (\<lambda>srcRow.
    andThen (index srcN srcRow) (\<lambda>srcNr.
    andThen (index srcT srcColumn) (\<lambda>srcTc.
      let dstX0 = wrap64 (padding + wrap64 (dstColumn * wrap64 (sliceWidth + wrap64 (2 * padding))));
          dstX = (if dstNr < dstColumn
                  then wrap64 (dstX0 + wrap64 (lastSliceWidth - sliceWidth)) else dstX0);
          dstY0 = wrap64 (padding + wrap64 (dstRow * wrap64 (sliceHeight + wrap64 (2 * padding))));
          dstY = (if dstTc < dstRow
                  then wrap64 (dstY0 + wrap64 (lastSliceHeight - sliceHeight)) else dstY0);
          srcX0 = wrap64 (srcColumn * sliceWidth);
          srcX = (if srcNr < srcColumn
                  then wrap64 (srcX0 + wrap64 (lastSliceWidth - sliceWidth)) else srcX0);
          srcY0 = wrap64 (srcRow * sliceHeight);
          srcY = (if srcTc < srcRow
                  then wrap64 (srcY0 + wrap64 (lastSliceHeight - sliceHeight)) else srcY0);
          pWidth = (if dstNr = dstColumn then lastSliceWidth else sliceWidth);
          pHeight = (if dstTc = dstRow then lastSliceHeight else sliceHeight)
      in Inr \<lparr>r_src = (dstX, dstY), r_dst = (srcX, srcY),
               r_width = pWidth, r_height = pHeight\<rparr>)))))))))"

definition rectanglesType1 ::
  "Descrambler \<Rightarrow> int \<Rightarrow> int \<Rightarrow> int \<Rightarrow> int \<Rightarrow> error + scrambleRectanglesCollection" where
  "rectanglesType1 ds cIndex pIndex srcWidth srcHeight =
    andThen (andThen (index (ds_data ds) cIndex) asType1) (\<lambda>cData.
    andThen (andThen (index (ds_data ds) pIndex) asType1) (\<lambda>pData.
      let h = d1_h cData; v = d1_v pData; padding = d1_padding cData;
          (width, height) = type1Size h v padding srcWidth srcHeight
      in
      andThen (tnp (d1_src cData) h v) (\<lambda>(srcT, srcN, srcP).
      andThen (tnp (d1_dst pData) h v) (\<lambda>(dstT, dstN, dstP).
      andThen (mapE (\<lambda>i. andThen (index dstP i) (index srcP)) [0..h * v - 1]) (\<lambda>p.
      andThen (divE (wrap64 (wrap64 (width + h) - 1)) h) (\<lambda>sliceWidth.
      andThen (divE (wrap64 (wrap64 (height + v) - 1)) v) (\<lambda>sliceHeight.
        let lastSliceWidth = wrap64 (width - wrap64 ((h - 1) * sliceWidth));
            lastSliceHeight = wrap64 (height - wrap64 ((v - 1) * sliceHeight))
        in
        andThen (mapE (type1Rect h padding srcT srcN dstT dstN p
                         sliceWidth sliceHeight lastSliceWidth lastSliceHeight) [0..h * v - 1])
          (\<lambda>res. Inr \<lparr>col_rectangles = res, col_srcWidth = srcWidth, col_srcHeight = srcHeight,
                         col_dstWidth = width, col_dstHeight = height\<rparr>))))))))"

text \<open>The body of the loop over \<open>res\<close> in \<open>rectanglesType2\<close>, for index \<open>i\<close>.\<close>

definition type2Rect ::
  "scrambleDataType2 \<Rightarrow> scrambleDataType2 \<Rightarrow> int \<Rightarrow> int \<Rightarrow> int \<Rightarrow> int \<Rightarrow> int
    \<Rightarrow> error + scrambleRectangle" where
  "type2Rect cData pData f g j k i =
    andThen (index (d2_pieces cData) i) (\<lambda>cPiece.
    andThen (index (d2_pieces pData) i) (\<lambda>pPiece.
      let srcX = go_div (fst (pc_pos cPiece)) 2 * f + go_mod (fst (pc_pos cPiece)) 2 * g;
          srcY = go_div (snd (pc_pos cPiece)) 2 * j + go_mod (snd (pc_pos cPiece)) 2 * k;
          dstX = go_div (fst (pc_pos pPiece)) 2 * f + go_mod (fst (pc_pos pPiece)) 2 * g;
          dstY = go_div (snd (pc_pos pPiece)) 2 * j + go_mod (snd (pc_pos pPiece)) 2 * k;
          width = go_div (pc_width cPiece) 2 * f + go_mod (pc_width cPiece) 2 * g;
          height = go_div (pc_height cPiece) 2 * j + go_mod (pc_height cPiece) 2 * k
      in Inr \<lparr>r_src = (srcX, srcY), r_dst = (dstX, dstY), r_width = width, r_height = height\<rparr>))"

text \<open>
  \<open>rectanglesType2\<close>. The counts \<open>ndx\<close> and \<open>ndy\<close> of a key are not bounded by the code, so
  what is computed from them wraps around.
\<close>

definition rectanglesType2 ::
  "Descrambler \<Rightarrow> int \<Rightarrow> int \<Rightarrow> int \<Rightarrow> int \<Rightarrow> error + scrambleRectanglesCollection" where
  "rectanglesType2 ds cIndex pIndex srcWidth srcHeight =
    (if \<not> (srcWidth \<ge> 64 \<and> srcHeight \<ge> 64 \<and> srcWidth * srcHeight \<ge> 320 * 320)
     then Inl (Err ''Invalid input image dimensions.'')
     else
      (let e = srcWidth - go_mod srcWidth 8;
           f = go_div (e - 1) 7 - go_mod (go_div (e - 1) 7) 8;
           g = e - f * 7;
           h = srcHeight - go_mod srcHeight 8;
           j = go_div (h - 1) 7 - go_mod (go_div (h - 1) 7) 8;
           k = h - j * 7
       in
       andThen (andThen (index (ds_data ds) cIndex) asType2) (\<lambda>pair1.
       andThen (andThen (index (ds_data ds) pIndex) asType2) (\<lambda>pair2.
         let cData = pair_c pair1; pData = pair_p pair2 in
         andThen (mapE (type2Rect cData pData f g j k) [0..int (length (d2_pieces cData)) - 1])
           (\<lambda>res.
             let e' = wrap64 (wrap64 (f * wrap64 (d2_ndx cData - 1)) + g);
                 h' = wrap64 (wrap64 (j * wrap64 (d2_ndy cData - 1)) + k);
                 res1 = (if e' < srcWidth
                         then res @ [\<lparr>r_src = (e', 0), r_dst = (e', 0),
                                       r_width = wrap64 (srcWidth - e'), r_height = h'\<rparr>]
                         else res);
                 res2 = (if h' < srcHeight
                         then res1 @ [\<lparr>r_src = (0, h'), r_dst = (0, h'),
                                        r_width = srcWidth, r_height = wrap64 (srcHeight - h')\<rparr>]
                         else res1)
             in Inr \<lparr>col_rectangles = res2, col_srcWidth = srcWidth, col_srcHeight = srcHeight,
                      col_dstWidth = srcWidth, col_dstHeight = srcHeight\<rparr>)))))"

subsection \<open>Images and the blit\<close>

text \<open>
  An image is its bounds (\<open>Min\<close> and \<open>Max\<close> of its rectangle) and its pixels. \<open>At\<close> outside
  the bounds is the zero colour and \<open>Set\<close> outside the bounds does nothing, as for the image
  types of the standard library. \<open>image.Rect\<close> orders its corners.
\<close>

type_synonym colour = nat

record image =
  img_min :: "int \<times> int"
  img_max :: "int \<times> int"
  img_pix :: "int \<times> int \<Rightarrow> colour"

definition Dx :: "image \<Rightarrow> int" where
  "Dx img = fst (img_max img) - fst (img_min img)"

definition Dy :: "image \<Rightarrow> int" where
  "Dy img = snd (img_max img) - snd (img_min img)"

definition inBounds :: "image \<Rightarrow> int \<Rightarrow> int \<Rightarrow> bool" where
  "inBounds img x y = (fst (img_min img) \<le> x \<and> x < fst (img_max img)
                       \<and> snd (img_min img) \<le> y \<and> y < snd (img_max img))"

definition At :: "image \<Rightarrow> int \<Rightarrow> int \<Rightarrow> colour" where
  "At img x y = (if inBounds img x y then img_pix img (x, y) else 0)"

definition SetPix :: "image \<Rightarrow> int \<Rightarrow> int \<Rightarrow> colour \<Rightarrow> image" where
  "SetPix img x y c = (if inBounds img x y then img\<lparr>img_pix := (img_pix img)((x, y) := c)\<rparr> else img)"

definition Rect :: "int \<Rightarrow> int \<Rightarrow> int \<Rightarrow> int \<Rightarrow> (int \<times> int) \<times> (int \<times> int)" where
  "Rect x0 y0 x1 y1 = ((min x0 x1, min y0 y1), (max x0 x1, max y0 y1))"

definition NewRGBA :: "(int \<times> int) \<times> (int \<times> int) \<Rightarrow> image" where
  "NewRGBA r = \<lparr>img_min = fst r, img_max = snd r, img_pix = (\<lambda>_. 0)\<rparr>"

text \<open>The two inner loops of \<open>Descramble\<close>, for one rectangle.\<close>

definition blitRect :: "image \<Rightarrow> image \<Rightarrow> scrambleRectangle \<Rightarrow> image" where
  "blitRect img res rect =
    foldl (\<lambda>res x.
      foldl (\<lambda>res y.
          SetPix res (x + fst (r_dst rect)) (y + snd (r_dst rect))
            (At img (x + fst (r_src rect)) (y + snd (r_src rect))))
        res [0..r_height rect - 1])
      res [0..r_width rect - 1]"

definition blit :: "image \<Rightarrow> scrambleRectanglesCollection \<Rightarrow> image" where
  "blit img col =
    foldl (blitRect img) (NewRGBA (Rect 0 0 (col_dstWidth col) (col_dstHeight col)))
      (col_rectangles col)"

subsection \<open>\<open>cpIndex\<close> and \<open>Descramble\<close>\<close>

definition cpIndex :: "string \<Rightarrow> int \<times> int" where
  "cpIndex filename =
    (let (c, p) = foldl (\<lambda>(c, p) (i, chr).
                      if i mod 2 = 0 then (c, p + int chr) else (c + int chr, p))
                    (0, 0) (go_range filename)
     in (go_mod c 8, go_mod p 8))"

text \<open>\<open>ds.rectangleCollections[c][p] = v\<close>, for indices in range.\<close>

definition setCollection ::
  "Descrambler \<Rightarrow> int \<Rightarrow> int \<Rightarrow> scrambleRectanglesCollection option \<Rightarrow> Descrambler" where
  "setCollection ds c p v =
    ds\<lparr>ds_rectangleCollections :=
         (ds_rectangleCollections ds)[nat c := (ds_rectangleCollections ds ! nat c)[nat p := v]]\<rparr>"

text \<open>
  \<open>Descramble(filename, reader)\<close>. The argument \<open>decoded\<close> is the result of
  \<open>image.Decode(reader)\<close>. The result is what the call returns (or its panic) and the
  descrambler with its cache after the call.
\<close>

definition Descramble ::
  "Descrambler \<Rightarrow> string \<Rightarrow> error + image \<Rightarrow> (error + image) \<times> Descrambler" where
  "Descramble ds filename decoded =
    (case decoded of
       Inl err \<Rightarrow> (Inl err, ds)
     | Inr img \<Rightarrow>
        (let srcWidth = Dx img; srcHeight = Dy img; (c, p) = cpIndex filename
         in case andThen (index (ds_rectangleCollections ds) c) (\<lambda>row. index row p) of
              Inl e \<Rightarrow> (Inl e, ds)
            | Inr col \<Rightarrow>
               (if col = None \<or> srcWidth \<noteq> col_srcWidth (the col) \<or> srcHeight \<noteq> col_srcHeight (the col)
                then
                  (case ds_keyType ds of
                     typeUnset \<Rightarrow> (Inl (Err ''Tried to descramble with unknown key type.''), ds)
                   | type1 \<Rightarrow>
                      (case rectanglesType1 ds c p srcWidth srcHeight of
                         Inl (Panic x) \<Rightarrow> (Inl (Panic x), ds)
                       | Inl (Err e) \<Rightarrow> (Inl (Err e), setCollection ds c p None)
                       | Inr new \<Rightarrow> (Inr (blit img new), setCollection ds c p (Some new)))
                   | type2 \<Rightarrow>
                      (case rectanglesType2 ds c p srcWidth srcHeight of
                         Inl (Panic x) \<Rightarrow> (Inl (Panic x), ds)
                       | Inl (Err e) \<Rightarrow> (Inl (Err e), setCollection ds c p None)
                       | Inr new \<Rightarrow> (Inr (blit img new), setCollection ds c p (Some new))))
                else (Inr (blit img (the col)), ds))))"

section \<open>The BookWalker descrambler (plugins/bookwalker)\<close>

text \<open>
  The package declares \<open>scrambleRectangle\<close> and \<open>scrambleRectanglesCollection\<close> with the
  same fields as the BinB package; the model uses the same two records.
\<close>

definition rectangleWidth :: int where "rectangleWidth = 64"
definition rectangleHeight :: int where "rectangleHeight = 64"
definition patternCount :: int where "patternCount = 4"
definition jsa :: int where "jsa = 61"
definition jsb :: int where "jsb = 73"
definition jsc :: int where "jsc = 4"
definition jsd :: int where "jsd = 43"
definition jse :: int where "jse = 47"
definition jsf :: int where "jsf = 53"
definition jsg :: int where "jsg = 59"
definition jsh :: int where "jsh = 67"
definition jsi :: int where "jsi = 71"
definition jsj :: int where "jsj = 29"
definition jsk :: int where "jsk = 37"
definition jsl :: int where "jsl = 31"
definition jsm :: int where "jsm = 41"

text \<open>Return the pattern that should be used for that particular filename.\<close>

definition getPattern :: "string \<Rightarrow> int" where
  "getPattern filePath =
    go_mod (foldl (\<lambda>res (i, c). res + int c) 0 (go_range filePath)) patternCount + 1"

definition calcPositionWithRest :: "int \<Rightarrow> int \<Rightarrow> int \<Rightarrow> int \<Rightarrow> int" where
  "calcPositionWithRest coordX i remainderX rectangleSize =
    (let res = coordX * rectangleSize in if res \<ge> i then res + remainderX else res)"

definition calcXCoordinateXRest :: "int \<Rightarrow> int \<Rightarrow> int \<Rightarrow> error + int" where
  "calcXCoordinateXRest idx rectangleCountX pattern = modE (idx + jsa * pattern) rectangleCountX"

definition calcYCoordinateXRest :: "int \<Rightarrow> int \<Rightarrow> int \<Rightarrow> int \<Rightarrow> int \<Rightarrow> error + int" where
  "calcYCoordinateXRest coordX unk1 unk2 rectangleCountY pattern =
    (let l = (go_mod pattern 2 = 1);
         k = (if coordX < unk1 then l else \<not> l);
         (modulo, extra) = (if k then (unk2, 0) else (rectangleCountY - unk2, unk2))
     in andThen (modE (coordX + pattern * jsf + unk2 * jsg) modulo) (\<lambda>r. Inr (r + extra)))"

definition calcXCoordinateYRest :: "int \<Rightarrow> int \<Rightarrow> int \<Rightarrow> int \<Rightarrow> int \<Rightarrow> error + int" where
  "calcXCoordinateYRest coordY unk1 unk2 rectangleCountX pattern =
    (let l = (go_mod pattern 2 = 1);
         k = (if coordY < unk2 then l else \<not> l);
         (modulo, extra) = (if k then (rectangleCountX - unk1, unk1) else (unk1, 0))
     in andThen (modE (coordY + pattern * jsh + unk1 + jsi) modulo) (\<lambda>r. Inr (r + extra)))"

definition calcYCoordinateYRest :: "int \<Rightarrow> int \<Rightarrow> int \<Rightarrow> error + int" where
  "calcYCoordinateYRest idx rectangleCountY pattern = modE (idx + jsb * pattern) rectangleCountY"

text \<open>
  The anchors \<open>i\<close> and \<open>n\<close> of \<open>generateRectangles\<close> are computed by the same three
  statements, from \<open>(rectsX, jsd)\<close> and from \<open>(rectsY, jse)\<close>.
\<close>

definition anchor :: "int \<Rightarrow> int \<Rightarrow> int \<Rightarrow> error + int" where
  "anchor rects js pattern =
    andThen (modE (js * pattern) rects) (\<lambda>m.
      let i = rects - m in
      andThen (modE i rects) (\<lambda>im.
      andThen (if im = 0 then modE (rects - jsc) rects else Inr i) (\<lambda>i.
        Inr (if i = 0 then rects - 1 else i))))"

text \<open>The bodies of the three loops of \<open>generateRectangles\<close>.\<close>

definition xRestRect :: "int \<Rightarrow> int \<Rightarrow> int \<Rightarrow> int \<Rightarrow> int \<Rightarrow> int \<Rightarrow> int \<Rightarrow> int \<Rightarrow> error + scrambleRectangle" where
  "xRestRect rectsX rectsY remainderX remainderY i n pattern s =
    andThen (calcXCoordinateXRest s rectsX pattern) (\<lambda>u.
    andThen (calcYCoordinateXRest u i n rectsY pattern) (\<lambda>v.
      let q = calcPositionWithRest u i remainderX rectangleWidth;
          r = v * rectangleHeight;
          o' = calcPositionWithRest s i remainderX rectangleWidth;
          p = n * rectangleHeight
      in Inr \<lparr>r_src = (q, r), r_dst = (o', p), r_width = rectangleWidth, r_height = remainderY\<rparr>))"

definition yRestRect :: "int \<Rightarrow> int \<Rightarrow> int \<Rightarrow> int \<Rightarrow> int \<Rightarrow> int \<Rightarrow> int \<Rightarrow> int \<Rightarrow> error + scrambleRectangle" where
  "yRestRect rectsX rectsY remainderX remainderY i n pattern t =
    andThen (calcYCoordinateYRest t rectsY pattern) (\<lambda>v.
    andThen (calcXCoordinateYRest v i n rectsX pattern) (\<lambda>u.
      let q = u * rectangleWidth;
          r = calcPositionWithRest v n remainderY rectangleHeight;
          o' = i * rectangleWidth;
          p = calcPositionWithRest t n remainderY rectangleHeight
      in Inr \<lparr>r_src = (q, r), r_dst = (o', p), r_width = remainderX, r_height = rectangleHeight\<rparr>))"

definition bulkRect :: "int \<Rightarrow> int \<Rightarrow> int \<Rightarrow> int \<Rightarrow> int \<Rightarrow> int \<Rightarrow> int \<Rightarrow> int \<times> int \<Rightarrow> error + scrambleRectangle" where
  "bulkRect rectsX rectsY remainderX remainderY i n pattern st =
    (let s = fst st; t = snd st in
     andThen (modE (s + pattern * jsj + jsl * t) rectsX) (\<lambda>u.
     andThen (modE (t + pattern * jsk + jsm * u) rectsY) (\<lambda>v.
     andThen (calcXCoordinateYRest v i n rectsX pattern) (\<lambda>cx.
     andThen (calcYCoordinateXRest u i n rectsY pattern) (\<lambda>cy.
       let w = (if u \<ge> cx then remainderX else 0);
           x = (if v \<ge> cy then remainderY else 0);
           q = u * rectangleWidth + w;
           r = v * rectangleHeight + x;
           o' = s * rectangleWidth + (if s \<ge> i then remainderX else 0);
           p = t * rectangleHeight + (if t \<ge> n then remainderY else 0)
       in Inr \<lparr>r_src = (q, r), r_dst = (o', p),
                r_width = rectangleWidth, r_height = rectangleHeight\<rparr>)))))"

text \<open>Generate rectangles for the specific pattern and image size.\<close>

definition generateRectangles :: "int \<Rightarrow> int \<Rightarrow> int \<Rightarrow> error + scrambleRectangle list" where
  "generateRectangles srcWidth srcHeight pattern =
    (let rectsX = go_div srcWidth rectangleWidth;
         rectsY = go_div srcHeight rectangleHeight;
         remainderX = go_mod srcWidth rectangleWidth;
         remainderY = go_mod srcHeight rectangleHeight
     in
     if rectsX * rectsY < 0 then Inl (Panic MakeSliceLen)
     else
     andThen (anchor rectsX jsd pattern) (\<lambda>i.
     andThen (anchor rectsY jse pattern) (\<lambda>n.
       let res0 = (if remainderX > 0 \<and> remainderY > 0
                   then [\<lparr>r_src = (i * rectangleWidth, n * rectangleHeight),
                           r_dst = (i * rectangleWidth, n * rectangleHeight),
                           r_width = remainderX, r_height = remainderY\<rparr>]
                   else [])
       in
       andThen (if remainderY > 0
                then mapE (xRestRect rectsX rectsY remainderX remainderY i n pattern) [0..rectsX - 1]
                else Inr []) (\<lambda>res1.
       andThen (if remainderX > 0
                then mapE (yRestRect rectsX rectsY remainderX remainderY i n pattern) [0..rectsY - 1]
                else Inr []) (\<lambda>res2.
       andThen (mapE (bulkRect rectsX rectsY remainderX remainderY i n pattern)
                  (concat (map (\<lambda>s. map (\<lambda>t. (s, t)) [0..rectsY - 1]) [0..rectsX - 1]))) (\<lambda>res3.
         Inr (res0 @ res1 @ res2 @ res3)))))))"

text \<open>
  The descrambler holds one collection per pattern (\<open>[patternCount]*scrambleRectanglesCollection\<close>,
  \<open>None\<close> for nil); its mutex is not modelled. \<open>descrambler{}\<close> is the empty one.
\<close>

type_synonym descrambler = "scrambleRectanglesCollection option list"

definition emptyDescrambler :: descrambler where
  "emptyDescrambler = replicate (nat patternCount) None"

text \<open>
  \<open>Descramble(filename, reader, dummyWidth, dummyHeight)\<close> of the BookWalker descrambler;
  \<open>decoded\<close> is the result of \<open>image.Decode(reader)\<close>.
\<close>

definition bwDescramble ::
  "descrambler \<Rightarrow> string \<Rightarrow> error + image \<Rightarrow> int \<Rightarrow> int \<Rightarrow> (error + image) \<times> descrambler" where
  "bwDescramble ds filename decoded dummyWidth dummyHeight =
    (case decoded of
       Inl err \<Rightarrow> (Inl err, ds)
     | Inr img \<Rightarrow>
        (let srcWidth = Dx img; srcHeight = Dy img; pattern = getPattern filename
         in case index ds (pattern - 1) of
              Inl e \<Rightarrow> (Inl e, ds)
            | Inr col \<Rightarrow>
               (if col = None \<or> srcWidth \<noteq> col_srcWidth (the col) \<or> srcHeight \<noteq> col_srcHeight (the col)
                then
                  (case generateRectangles srcWidth srcHeight pattern of
                     Inl e \<Rightarrow> (Inl e, ds)
                   | Inr rects \<Rightarrow>
                      (let new = \<lparr>col_rectangles = rects,
                                  col_srcWidth = srcWidth, col_srcHeight = srcHeight,
                                  col_dstWidth = srcWidth - dummyWidth,
                                  col_dstHeight = srcHeight - dummyHeight\<rparr>
                       in (Inr (blit img new), ds[nat (pattern - 1) := Some new])))
                else (Inr (blit img (the col)), ds))))"

text \<open>
  The descramblers a program can hold: the empty one, and the one left by a call of
  \<open>Descramble\<close> on one it can hold.
\<close>

inductive bwReachable :: "descrambler \<Rightarrow> bool" where
  bwEmpty: "bwReachable emptyDescrambler"
| bwCall: "bwReachable ds \<Longrightarrow> bwDescramble ds filename decoded dummyWidth dummyHeight = (res, ds')
           \<Longrightarrow> bwReachable ds'"

text \<open>
  The identity tile positions of an image of \<open>nx\<close> by \<open>ny\<close> whole tiles: the top-left
  corners \<open>(64 s, 64 t)\<close>.
\<close>

definition tiles :: "int \<Rightarrow> int \<Rightarrow> (int \<times> int) list" where
  "tiles nx ny = concat (map (\<lambda>s. map (\<lambda>t. (s * 64, t * 64)) [0..ny - 1]) [0..nx - 1])"

text \<open>What is checked of the rectangle list of a 640 by 896 image, as a function to run.\<close>

definition tiling640x896 :: "scrambleRectangle list \<Rightarrow> bool" where
  "tiling640x896 rects =
    (length rects = 140
     \<and> list_all (\<lambda>r. r_width r = 64 \<and> r_height r = 64) rects
     \<and> map r_dst rects = tiles 10 14
     \<and> distinct (map r_src rects)
     \<and> list_all (\<lambda>q. q \<in> set (tiles 10 14)) (map r_src rects))"

text \<open>
  The descramblers a program can hold for the key tables \<open>ctbl\<close> and \<open>ptbl\<close>: the one
  \<open>NewDescrambler\<close> returns, and the one left by a call of \<open>Descramble\<close> on one it can hold.
\<close>

inductive dsReachable :: "string list \<Rightarrow> string list \<Rightarrow> Descrambler \<Rightarrow> bool" where
  dsNew: "NewDescrambler ctbl ptbl = Inr ds \<Longrightarrow> dsReachable ctbl ptbl ds"
| dsCall: "dsReachable ctbl ptbl ds \<Longrightarrow> Descramble ds filename decoded = (res, ds')
           \<Longrightarrow> dsReachable ctbl ptbl ds'"



text \<open>
  An example title with two Type-1 pairs of different \<open>v\<close>: its key tables, the descrambler
  \<open>NewDescrambler\<close> returns for them, and the collection of the cell (0, 1) for a
  400 by 400 image.
\<close>

definition exampleCtbl :: "string list" where
  "exampleCtbl = [''=1-2+10-AAAAA'', ''=1-1+10-AAA'']"

definition examplePtbl :: "string list" where
  "examplePtbl = [''=1-2-10-AAAAA'', ''=1-1-10-AAA'']"

definition exampleDescrambler :: Descrambler where
  "exampleDescrambler =
     \<lparr>ds_Ctbl = exampleCtbl, ds_Ptbl = examplePtbl, ds_keyType = type1,
      ds_data = [Type1Data \<lparr>d1_h = 1, d1_v = 2, d1_padding = 10,
                            d1_src = ''AAAAA'', d1_dst = ''AAAAA''\<rparr>,
                 Type1Data \<lparr>d1_h = 1, d1_v = 1, d1_padding = 10,
                            d1_src = ''AAA'', d1_dst = ''AAA''\<rparr>],
      ds_rectangleCollections = [[None, None], [None, None]]\<rparr>"


section \<open>The download manager (downloadmanager.go)\<close>

text \<open>
  \<open>Download\<close> runs on the calling goroutine and talks to the spawner and the workers
  through channels. Its model is a function of what that goroutine meets during one call:
  the special options of the plugin (dynamically typed values, as the assertions
  \<open>z.(bool)\<close> and \<open>w.(int)\<close> take them), what \<open>DownloadGenerator\<close> and the first \<open>dlgen()\<close>
  do, the messages its \<open>select\<close> receives in their order, what \<open>ZipDownloads\<close> returns
  and whether \<open>Cleanup\<close> panics. A panic carries the text of its value.
\<close>

datatype goValue = BoolV bool | IntV int | OtherV

text \<open>A message received by the \<open>select\<close> of the main loop, from \<open>interrupt\<close>, \<open>done\<close> or \<open>got\<close>.\<close>

datatype event = Interrupt | Done "error option" | Got string

record run =
  run_special :: "string \<Rightarrow> goValue option"
  run_generator :: "string + bool"
  run_events :: "event list"
  run_zip :: "string list \<Rightarrow> error option"
  run_cleanup :: "error option \<Rightarrow> string option"

definition ErrNilGenerator :: string where
  "ErrNilGenerator = ''DownloadGenerator() returned nil on first call.''"

definition ErrInvaidSpecialOptionType :: string where
  "ErrInvaidSpecialOptionType = ''A special option was not of the expected type.''"

definition ErrInterrupted :: error where
  "ErrInterrupted = Err ''The download failed to finish because of an interrupt.''"

text \<open>
  The statements of \<open>Download\<close> before its main loop: \<open>Inl r\<close> when one of them panics with
  \<open>r\<close>, otherwise the values of \<open>zipit\<close> and \<open>maxWorkers\<close> after the special options.
  In \<open>run_generator\<close>, \<open>Inl r\<close> is a panic of the plugin and \<open>Inr b\<close> tells whether \<open>dlgen\<close>
  is not nil. \<open>make(chan string, maxWorkers)\<close> panics on a negative size.
\<close>

definition beforeLoop :: "run \<Rightarrow> int \<Rightarrow> bool \<Rightarrow> bool \<Rightarrow> string + bool \<times> int" where
  "beforeLoop r maxWorkers zipit override =
    (case (if override then Inr (zipit, maxWorkers)
           else
             (case (case run_special r ''Zip'' of
                      None \<Rightarrow> Inr zipit
                    | Some (BoolV b) \<Rightarrow> Inr b
                    | Some _ \<Rightarrow> Inl ErrInvaidSpecialOptionType) of
                Inl e \<Rightarrow> Inl e
              | Inr z \<Rightarrow>
                 (case run_special r ''Workers'' of
                    None \<Rightarrow> Inr (z, maxWorkers)
                  | Some (IntV w) \<Rightarrow> Inr (z, w)
                  | Some _ \<Rightarrow> Inl ErrInvaidSpecialOptionType))) of
       Inl e \<Rightarrow> Inl e
     | Inr (z, w) \<Rightarrow>
        (case run_generator r of
           Inl e \<Rightarrow> Inl e
         | Inr False \<Rightarrow> Inl ErrNilGenerator
         | Inr True \<Rightarrow> if w < 0 then Inl ''makechan: size out of range'' else Inr (z, w)))"

text \<open>
  The main loop, on the messages still to come and \<open>dm.paths\<close>: how it is left, or \<open>None\<close>
  when no further message comes and the \<open>select\<close> blocks for ever. (\<open>filepath.FromSlash\<close>
  is the identity where the separator is a slash.)
\<close>

datatype loopExit = OnInterrupt | OnDone "error option" "string list"

fun mainLoop :: "event list \<Rightarrow> string list \<Rightarrow> loopExit option" where
  "mainLoop [] paths = None"
| "mainLoop (Interrupt # es) paths = Some OnInterrupt"
| "mainLoop (Done err # es) paths = Some (OnDone err paths)"
| "mainLoop (Got path # es) paths = mainLoop es (paths @ [path])"

text \<open>
  A call leaves \<open>Download\<close> by a return of \<open>(paths, err)\<close> or by a panic. The second
  component of a result is the list of the arguments of the calls of \<open>Cleanup\<close>, in order.
\<close>

type_synonym exit = "(error + string list \<times> error option) \<times> error option list"

text \<open>
  The deferred function, run when \<open>Download\<close> panics with \<open>r\<close>:
  \<open>dm.plugin.Cleanup(fmt.Errorf("%v", r)); panic(r)\<close>.
\<close>

definition deferred :: "run \<Rightarrow> string \<Rightarrow> error option list \<Rightarrow> exit" where
  "deferred r pv log =
    (case run_cleanup r (Some (Err pv)) of
       Some pv' \<Rightarrow> (Inl (Panic (PanicValue pv')), log @ [Some (Err pv)])
     | None \<Rightarrow> (Inl (Panic (PanicValue pv)), log @ [Some (Err pv)]))"

text \<open>\<open>dm.plugin.Cleanup(arg); return paths, err\<close> in the body of \<open>Download\<close>.\<close>

definition cleanupAndReturn :: "run \<Rightarrow> error option \<Rightarrow> string list \<Rightarrow> error option \<Rightarrow> exit" where
  "cleanupAndReturn r arg paths err =
    (case run_cleanup r arg of
       Some pv \<Rightarrow> deferred r pv [arg]
     | None \<Rightarrow> (Inr (paths, err), [arg]))"

definition Download :: "run \<Rightarrow> int \<Rightarrow> bool \<Rightarrow> bool \<Rightarrow> exit option" where
  "Download r maxWorkers zipit override =
    (case beforeLoop r maxWorkers zipit override of
       Inl pv \<Rightarrow> Some (deferred r pv [])
     | Inr (zipit', maxWorkers') \<Rightarrow>
        (case mainLoop (run_events r) [] of
           None \<Rightarrow> None
         | Some OnInterrupt \<Rightarrow> Some (cleanupAndReturn r (Some ErrInterrupted) [] (Some ErrInterrupted))
         | Some (OnDone (Some err) paths) \<Rightarrow> Some (cleanupAndReturn r (Some err) [] (Some err))
         | Some (OnDone None paths) \<Rightarrow>
            (if zipit' then
               (case run_zip r paths of
                  Some err \<Rightarrow> Some (cleanupAndReturn r (Some err) paths (Some err))
                | None \<Rightarrow> Some (cleanupAndReturn r None paths None))
             else Some (cleanupAndReturn r None paths None))))"

text \<open>
  The end of the spawner, after \<open>wg.Wait()\<close>: the message it sends on \<open>done\<close>, from the
  errors buffered in \<open>ec\<close> and the count of the downloaders it spawned.
\<close>

definition spawnerFinish :: "error list \<Rightarrow> nat \<Rightarrow> error option" where
  "spawnerFinish ec dlCount =
    (case ec of
       err # _ \<Rightarrow> Some err
     | [] \<Rightarrow> if dlCount = 0 then Some (Err ''Got no downloaders from the plugin.'') else None)"

text \<open>
  Two example calls. In the first the plugin yields one downloader, which saves no file and
  returns nil; the spawner then sends \<open>spawnerFinish [] 1\<close> on \<open>done\<close>. In the second one
  downloader saves a file and returns nil, and packaging fails.
\<close>

definition runWithoutArtifact :: run where
  "runWithoutArtifact =
     \<lparr>run_special = (\<lambda>_. None), run_generator = Inr True,
      run_events = [Done (spawnerFinish [] 1)],
      run_zip = (\<lambda>_. None), run_cleanup = (\<lambda>_. None)\<rparr>"

definition runZipFails :: run where
  "runZipFails =
     \<lparr>run_special = (\<lambda>_. None), run_generator = Inr True,
      run_events = [Got ''title/0001.jpg'', Done (spawnerFinish [] 1)],
      run_zip = (\<lambda>_. Some (Err ''zip: write failed'')), run_cleanup = (\<lambda>_. None)\<rparr>"

subsection \<open>The spawner and its workers\<close>

text \<open>
  The spawner goroutine and the workers it starts run concurrently. Their model is a
  transition system on what they share: each step is one atomic action of one goroutine,
  and a run is a list of such actions, in the order a schedule takes them. A downloader is
  given by what its call \<open>dl(n, reporter)\<close> will return (a panic of the downloader is the
  error its worker makes of it).
\<close>

datatype spawner = AtLoop | AtWait | Sent "error option"

record pool =
  p_todo :: "error option list"
  p_slots :: nat
  p_running :: "error option list"
  p_leaving :: nat
  p_ec :: "error list"
  p_dlCount :: nat
  p_spawner :: spawner

text \<open>
  \<open>p_todo\<close>: the downloaders the generator has still to yield (\<open>next\<close> first);
  \<open>p_slots\<close>: the number of values in the channel \<open>workerLimiter\<close>;
  \<open>p_running\<close>: the workers started whose downloader has not returned;
  \<open>p_leaving\<close>: the workers whose downloader returned nil and that have not yet received
  from \<open>workerLimiter\<close>;
  \<open>p_ec\<close>: the errors buffered in \<open>ec\<close>; \<open>p_spawner\<close>: where the spawner is (in its loop, at
  \<open>wg.Wait()\<close>, or gone after the message it sent on \<open>done\<close>).
\<close>

definition poolStart :: "error option list \<Rightarrow> pool" where
  "poolStart thunks =
     \<lparr>p_todo = thunks, p_slots = 0, p_running = [], p_leaving = 0, p_ec = [],
      p_dlCount = 0, p_spawner = AtLoop\<rparr>"

datatype action =
    Admit          \<comment> \<open>the \<open>select\<close> sends on \<open>workerLimiter\<close>; the worker is started; \<open>next = dlgen()\<close>\<close>
  | Relay          \<comment> \<open>the \<open>select\<close> receives from \<open>ec\<close>; \<open>done <- err; return\<close>\<close>
  | GenPanics      \<comment> \<open>\<open>dlgen()\<close> panics in the loop; the spawner recovers and sends on \<open>done\<close>\<close>
  | LeaveLoop      \<comment> \<open>\<open>next == nil\<close>: the loop ends, the spawner goes to \<open>wg.Wait()\<close>\<close>
  | Returns nat    \<comment> \<open>the downloader of the \<open>k\<close>-th running worker returns\<close>
  | Release        \<comment> \<open>a worker whose downloader returned nil receives from \<open>workerLimiter\<close>\<close>
  | Finish         \<comment> \<open>\<open>wg.Wait()\<close> returns; the spawner sends its last message on \<open>done\<close>\<close>

text \<open>
  One step with worker cap \<open>W\<close> (the capacity of \<open>workerLimiter\<close>): \<open>None\<close> when the action
  cannot be taken in the state. A send on \<open>workerLimiter\<close> needs a free place in its
  buffer. A worker whose downloader returns an error sends it on \<open>ec\<close> and returns
  without receiving from \<open>workerLimiter\<close>.
\<close>

definition poolStep :: "nat \<Rightarrow> pool \<Rightarrow> action \<Rightarrow> pool option" where
  "poolStep W s a =
    (case a of
       Admit \<Rightarrow>
         (case p_todo s of
            next # rest \<Rightarrow>
              if p_spawner s = AtLoop \<and> p_slots s < W
              then Some (s\<lparr>p_todo := rest, p_slots := p_slots s + 1,
                          p_running := p_running s @ [next], p_dlCount := p_dlCount s + 1\<rparr>)
              else None
          | [] \<Rightarrow> None)
     | Relay \<Rightarrow>
         (case p_ec s of
            err # errs \<Rightarrow>
              if p_spawner s = AtLoop \<and> p_todo s \<noteq> []
              then Some (s\<lparr>p_ec := errs, p_spawner := Sent (Some err)\<rparr>)
              else None
          | [] \<Rightarrow> None)
     | GenPanics \<Rightarrow>
         if p_spawner s = AtLoop \<and> p_dlCount s > 0
         then Some (s\<lparr>p_spawner := Sent (Some (Err ''Spawner panicked''))\<rparr>)
         else None
     | LeaveLoop \<Rightarrow>
         if p_spawner s = AtLoop \<and> p_todo s = [] then Some (s\<lparr>p_spawner := AtWait\<rparr>) else None
     | Returns k \<Rightarrow>
         if k < length (p_running s) then
           (case p_running s ! k of
              None \<Rightarrow> Some (s\<lparr>p_running := take k (p_running s) @ drop (Suc k) (p_running s),
                               p_leaving := p_leaving s + 1\<rparr>)
            | Some err \<Rightarrow> Some (s\<lparr>p_running := take k (p_running s) @ drop (Suc k) (p_running s),
                                   p_ec := p_ec s @ [err]\<rparr>))
         else None
     | Release \<Rightarrow>
         if p_leaving s > 0 \<and> p_slots s > 0
         then Some (s\<lparr>p_leaving := p_leaving s - 1, p_slots := p_slots s - 1\<rparr>)
         else None
     | Finish \<Rightarrow>
         if p_spawner s = AtWait \<and> p_running s = [] \<and> p_leaving s = 0
         then Some (s\<lparr>p_ec := tl (p_ec s), p_spawner := Sent (spawnerFinish (p_ec s) (p_dlCount s))\<rparr>)
         else None)"

fun poolRun :: "nat \<Rightarrow> pool \<Rightarrow> action list \<Rightarrow> pool option" where
  "poolRun W s [] = Some s"
| "poolRun W s (a # as) = (case poolStep W s a of None \<Rightarrow> None | Some s' \<Rightarrow> poolRun W s' as)"

text \<open>
  The conditions of the specification for \<open>Initialise(C, P)\<close>, in its words: a Type-1 pair
  has matching \<open>h\<close>, \<open>v\<close> and padding, \<open>+\<close> in the C key and \<open>-\<close> in the P key, \<open>h\<close> and \<open>v\<close> at
  most 8 with \<open>h v\<close> at most 64, and payloads of length \<open>h + v + h v\<close>; a Type-2 key has a
  payload of length \<open>2 ndx ndy\<close>; all pairs are of one scheme.
\<close>

definition type1PairOK :: "string \<Rightarrow> string \<Rightarrow> bool" where
  "type1PairOK c p =
    (case (reType1Key c, reType1Key p) of
       (Some gc, Some gp) \<Rightarrow>
          gc ! 1 = gp ! 1 \<and> gc ! 2 = gp ! 2 \<and> gc ! 4 = gp ! 4 \<and> gc ! 3 = ''+'' \<and> gp ! 3 = ''-''
          \<and> Atoi (gc ! 1) \<le> 8 \<and> Atoi (gc ! 2) \<le> 8 \<and> Atoi (gc ! 1) * Atoi (gc ! 2) \<le> 64
          \<and> int (length (gc ! 5)) = Atoi (gc ! 1) + Atoi (gc ! 2) + Atoi (gc ! 1) * Atoi (gc ! 2)
          \<and> int (length (gp ! 5)) = Atoi (gc ! 1) + Atoi (gc ! 2) + Atoi (gc ! 1) * Atoi (gc ! 2)
     | _ \<Rightarrow> False)"

definition type2KeyOK :: "string \<Rightarrow> bool" where
  "type2KeyOK k =
    (case reType2Key k of
       Some g \<Rightarrow> int (length (g ! 3)) = 2 * Atoi (g ! 1) * Atoi (g ! 2)
     | None \<Rightarrow> False)"

definition pairType :: "string \<Rightarrow> string \<Rightarrow> scrambleKeyType option" where
  "pairType c p =
    (if type1PairOK c p then Some type1
     else if type2KeyOK c \<and> type2KeyOK p then Some type2
     else None)"

definition specAccepts :: "string list \<Rightarrow> string list \<Rightarrow> bool" where
  "specAccepts ctbl ptbl =
    (length ctbl = length ptbl \<and> ctbl \<noteq> []
     \<and> (\<exists>t. \<forall>i<length ctbl. pairType (ctbl ! i) (ptbl ! i) = Some t))"

text \<open>A key whose Type-2 counts, when it has them, are below \<open>2^31\<close>.\<close>

definition smallKey :: "string \<Rightarrow> bool" where
  "smallKey k =
    (case reType2Key k of
       Some g \<Rightarrow> Atoi (g ! 1) < 2 ^ 31 \<and> Atoi (g ! 2) < 2 ^ 31
     | None \<Rightarrow> True)"

text \<open>The pairs \<open>i\<close>, ..., \<open>i + n - 1\<close> are well formed, of one scheme, which is \<open>kt\<close> if set.\<close>

definition pairsOK :: "scrambleKeyType \<Rightarrow> string list \<Rightarrow> string list \<Rightarrow> nat \<Rightarrow> nat \<Rightarrow> bool" where
  "pairsOK kt ctbl ptbl i n =
    (n = 0 \<or> (\<exists>t. (kt = typeUnset \<or> kt = t)
                \<and> (\<forall>j<n. pairType (ctbl ! (i + j)) (ptbl ! (i + j)) = Some t)))"

section \<open>Invariants\<close>

text \<open>
  Every cached collection of the BookWalker descrambler was built by
  \<open>generateRectangles\<close> for its own size and the pattern of its slot.
\<close>

definition bwInv :: "descrambler \<Rightarrow> bool" where
  "bwInv ds = (length ds = 4 \<and>
     (\<forall>k<4. \<forall>c. ds ! k = Some c \<longrightarrow>
        (\<exists>rects. generateRectangles (col_srcWidth c) (col_srcHeight c) (int k + 1) = Inr rects)))"


text \<open>
  The workers that are running or about to leave hold a slot each, and the spawner has
  given out at most \<open>W\<close> slots.
\<close>

definition poolInv :: "nat \<Rightarrow> pool \<Rightarrow> bool" where
  "poolInv W s = (length (p_running s) + p_leaving s \<le> p_slots s \<and> p_slots s \<le> W)"

section \<open>Properties of \<open>range\<close>\<close>

lemma decoderune_bound: "fst (decoderune bs) \<le> 1114111"
proof (cases bs)
  case Nil
  then show ?thesis by (simp add: runeError_def)
next
  case (Cons b0 rest)
  have m32: "b0 mod 32 * 64 + x mod 64 \<le> 1114111" for x
  proof -
    have "b0 mod 32 \<le> 31" "x mod 64 \<le> 63" by simp_all
    then show ?thesis by linarith
  qed
  have m16: "b0 mod 16 * 4096 + x mod 64 * 64 + y mod 64 \<le> 1114111" for x y
  proof -
    have "b0 mod 16 \<le> 15" "x mod 64 \<le> 63" "y mod 64 \<le> 63" by simp_all
    then show ?thesis by linarith
  qed
  show ?thesis
    unfolding Cons
    by (auto simp: runeError_def Let_def m32 m16 split: list.splits)
qed

lemma range_from_bound: "p \<in> set (range_from i bs) \<Longrightarrow> snd p \<le> 1114111"
proof (induction i bs rule: range_from.induct)
  case (1 i)
  then show ?case by simp
next
  case (2 i b bs)
  obtain r w where d: "decoderune (b # bs) = (r, w)" by (cases "decoderune (b # bs)")
  have r: "r \<le> 1114111" using decoderune_bound [of "b # bs"] d by simp
  from "2.prems" d have "p = (i, r) \<or> p \<in> set (range_from (i + w) (drop (w - 1) bs))"
    by (simp del: decoderune.simps)
  then show ?case
  proof
    assume "p = (i, r)"
    with r show ?thesis by simp
  next
    assume "p \<in> set (range_from (i + w) (drop (w - 1) bs))"
    with "2.IH" d show ?thesis by (simp del: decoderune.simps)
  qed
qed

lemma range_from_ascii:
  "\<forall>b\<in>set bs. b < 128 \<Longrightarrow> range_from i bs = zip [i..<i + length bs] bs"
proof (induction bs arbitrary: i)
  case Nil
  then show ?case by simp
next
  case (Cons b bs)
  then have b: "b < 128" and rest: "\<forall>b\<in>set bs. b < 128" by simp_all
  have u: "[i..<i + length (b # bs)] = i # [Suc i..<Suc i + length bs]"
    by (subst upt_rec) simp
  have "range_from i (b # bs) = (i, b) # range_from (Suc i) bs"
    using b by simp
  also have "\<dots> = (i, b) # zip [Suc i..<Suc i + length bs] bs"
    using Cons.IH [OF rest, of "Suc i"] by simp
  also have "\<dots> = zip [i..<i + length (b # bs)] (b # bs)"
    unfolding u by simp
  finally show ?case .
qed

lemma go_range_ascii:
  assumes "\<forall>c\<in>set s. (of_char c :: nat) < 128"
  shows "go_range s = zip [0..<length s] (map of_char s)"
  unfolding go_range_def using range_from_ascii [of "map of_char s" 0] assms by simp


section \<open>Properties of the cipher\<close>

lemma unat_combine: "unat (combine key c) = unat ((word_of_nat c :: 32 word) - 0x20 + key) mod 0x5E + 0x20"
proof -
  let ?x = "(word_of_nat c :: 32 word) - 0x20 + key"
  have a: "unat (?x mod 0x5E) = unat ?x mod 0x5E"
    by (simp add: unat_mod)
  have b: "unat ?x mod 0x5E < 0x5E" by simp
  have c: "unat (?x mod 0x5E + 0x20) = unat ?x mod 0x5E + 0x20"
    using a b by (simp add: unat_add_lem [THEN iffD1])
  have "unat (combine key c) = take_bit 8 (unat (?x mod 0x5E + 0x20))"
    unfolding combine_def by (simp add: unsigned_ucast_eq)
  also have "\<dots> = unat ?x mod 0x5E + 0x20"
    unfolding c using b by (simp add: take_bit_nat_eq_self)
  finally show ?thesis .
qed

lemma advance_cases:
  "advance key = (if even key then drop_bit 1 key else drop_bit 1 key XOR 0x48200004)"
  unfolding advance_def by (cases "even key") (simp_all add: and_one_eq mod_2_eq_odd)

lemma unat_advance:
  "unat (advance key) = (unat key div 2) XOR (if odd (unat key) then 0x48200004 else 0)"
proof -
  have e: "even key \<longleftrightarrow> even (unat key)" 
    by (metis even_of_nat mult.right_neutral unsigned_1 word_arith_nat_mult)
  have d: "unat (drop_bit 1 key) = unat key div 2"
    by (simp add: drop_bit_eq_div unat_div)
  show ?thesis
    unfolding advance_cases using e d by (simp add: unsigned_xor_eq)
qed

lemma foldl_seed:
  "foldl (\<lambda>res (i, char). res + push_bit (i mod 16) (word_of_nat char)) (word_of_nat a) ps
     = (word_of_nat (a + (\<Sum>(i, c) \<leftarrow> ps. c * 2 ^ (i mod 16))) :: 32 word)"
proof (induction ps arbitrary: a)
  case Nil
  then show ?case by simp
next
  case (Cons p ps)
  obtain i c where p: "p = (i, c)" by (cases p)
  have "(word_of_nat a :: 32 word) + push_bit (i mod 16) (word_of_nat c) = word_of_nat (a + c * 2 ^ (i mod 16))"
    by (simp add: push_bit_eq_mult)
  with Cons.IH [of "a + c * 2 ^ (i mod 16)"] p show ?case
    by (simp add: add.assoc)
qed

lemma unat_makeKey:
  "unat (makeKey cid k) =
     (let a = (\<Sum>(i, c) \<leftarrow> go_range (cid @ '':'' @ k). c * 2 ^ (i mod 16)) mod 2 ^ 31
      in if a = 0 then 0x12345678 else a)"
proof -
  let ?n = "\<Sum>(i, c) \<leftarrow> go_range (cid @ '':'' @ k). c * 2 ^ (i mod 16)"
  let ?res = "foldl (\<lambda>res (i, char). res + push_bit (i mod 16) (word_of_nat char)) (0 :: 32 word) (go_range (cid @ '':'' @ k))"
  have r: "?res = word_of_nat ?n"
    using foldl_seed [of 0 "go_range (cid @ '':'' @ k)"] by simp
  have m: "(0x7FFFFFFF :: 32 word) = mask 31" by (simp add: mask_eq_exp_minus_1)
  have "unat (?res AND 0x7FFFFFFF) = take_bit 31 (unat ?res)"
    unfolding m by (simp add: unsigned_take_bit_eq flip: take_bit_eq_mask)
  also have "\<dots> = take_bit 31 (take_bit 32 ?n)"
    unfolding r by (simp add: unsigned_of_nat)
  also have "\<dots> = take_bit 31 ?n"
    by simp
  also have "\<dots> = ?n mod 2 ^ 31"
    by (simp only: take_bit_eq_mod)
  finally have u: "unat (?res AND 0x7FFFFFFF) = ?n mod 2 ^ 31" .
  have z: "?res AND 0x7FFFFFFF = 0 \<longleftrightarrow> ?n mod 2 ^ 31 = 0"
    using u by (metis unat_eq_0)
  show ?thesis
    unfolding makeKey_def Let_def using u z by simp
qed

lemma xor_bound_nat:
  assumes "a < 2 ^ n" "b < 2 ^ n"
  shows "(a XOR b :: nat) < 2 ^ n"
proof -
  have "take_bit n (a XOR b) = a XOR b"
    by (simp add: take_bit_nat_eq_self assms)
  then show ?thesis by (simp only: take_bit_nat_eq_self_iff)
qed

lemma makeKey_bound: "unat (makeKey cid k) < 2147483648"
  unfolding unat_makeKey Let_def by simp

lemma advance_bound: 
  assumes "unat s < 2147483648"
  shows "unat (advance s) < 2147483648"
proof -
  have "unat s div 2 < 2 ^ 31" using assms by simp
  moreover have "(if odd (unat s) then 0x48200004 else 0 :: nat) < 2 ^ 31" by simp
  ultimately have "(unat s div 2) XOR (if odd (unat s) then 0x48200004 else 0) < 2 ^ 31"
    by (rule xor_bound_nat)
  then show ?thesis unfolding unat_advance by simp
qed

lemma state_bound: "unat ((advance ^^ j) (makeKey cid k)) < 2147483648"
  by (induction j) (simp_all add: makeKey_bound advance_bound)

lemma unat_combine_printable:
  assumes c: "0x20 \<le> c" "c \<le> 1114111" and s: "unat s < 2147483648"
  shows "unat (combine s c) = (c - 0x20 + unat s) mod 0x5E + 0x20"
proof -
  let ?n = "c - 0x20 + unat s"
  have "(word_of_nat c :: 32 word) - 0x20 + s = word_of_nat (c - 0x20) + word_of_nat (unat s)"
    using c by (simp add: of_nat_diff)
  also have "\<dots> = word_of_nat ?n" by simp
  finally have w: "(word_of_nat c :: 32 word) - 0x20 + s = word_of_nat ?n" .
  have "?n < 2 ^ LENGTH(32)" using c s by simp
  then have "?n mod 2 ^ LENGTH(32) = ?n" by (rule mod_less)
  then have "unat (word_of_nat ?n :: 32 word) = ?n" by (simp only: unat_of_nat)
  then show ?thesis unfolding unat_combine w by simp
qed

lemma length_decryptLoop: "length (decryptLoop key cs) = length cs"
  by (induction cs arbitrary: key) (simp_all add: Let_def)

lemma decryptLoop_nth:
  "j < length cs \<Longrightarrow> decryptLoop key cs ! j = combine ((advance ^^ Suc j) key) (cs ! j)"
proof (induction cs arbitrary: key j)
  case Nil
  then show ?case by simp
next
  case (Cons c cs)
  show ?case
  proof (cases j)
    case 0
    then show ?thesis by (simp add: Let_def)
  next
    case (Suc j')
    with Cons.prems have "j' < length cs" by simp
    from Cons.IH [OF this, of "advance key"] Suc show ?thesis
      by (simp add: Let_def funpow_swap1)
  qed
qed

lemma keystate_bound: "unat (keystate cid k j) < 2147483648"
  unfolding keystate_def by (rule state_bound)

text \<open>
  Claim C1 as stated fails: the two bytes C3 A9 are one character (the code point 233 in
  UTF-8), and \<open>decryptData\<close> returns one byte for them, not two.
\<close>

theorem decryptData_length_counterexample:
  "decryptData ''0000_1'' ''AAAAAAAAAAAAAAAAAAAAAAAAAAAAAAAA'' [CHR 0xC3, CHR 0xA9] = Inr [116]
   \<and> go_range [CHR 0xC3, CHR 0xA9] = [(0, 233)]
   \<and> length [CHR 0xC3, CHR 0xA9] = 2
   \<and> length [116 :: 8 word] = 1"
  by code_simp

text \<open>
  Claim C1, amended. For every cid, nonce k and input string, \<open>decryptData\<close> returns a byte
  string with one byte per input character (per code point that \<open>range\<close> yields; for an ASCII
  input that is the byte length of the input), every byte in the range [0x20, 0x7E).
  Byte \<open>j\<close> is \<open>((in - 0x20 + state) mod 0x5E) + 0x20\<close> in 32-bit arithmetic (and in plain
  arithmetic when the character is at least 0x20), where \<open>state\<close> is the keystream state
  after \<open>j + 1\<close> steps. The seed is the sum of \<open>char << (i mod 16)\<close> over
  \<open>cid + ":" + k\<close>, masked with 0x7FFFFFFF, with 0x12345678 in place of zero, and a step
  is \<open>state = (state >> 1) XOR (-(state AND 1) AND 0x48200004)\<close>.
\<close>

theorem decryptData_spec:
  "\<exists>out. decryptData cid k data = Inr out
     \<and> length out = length (go_range data)
     \<and> ((\<forall>c\<in>set data. (of_char c :: nat) < 128) \<longrightarrow> length out = length data)
     \<and> (\<forall>b\<in>set out. 0x20 \<le> unat b \<and> unat b < 0x7E)
     \<and> (\<forall>j<length out.
           unat (out ! j) =
             unat ((word_of_nat (snd (go_range data ! j)) :: 32 word) - 0x20 + keystate cid k (Suc j))
               mod 0x5E + 0x20
         \<and> (0x20 \<le> snd (go_range data ! j) \<longrightarrow>
             unat (out ! j) =
               (snd (go_range data ! j) - 0x20 + unat (keystate cid k (Suc j))) mod 0x5E + 0x20))
     \<and> unat (keystate cid k 0) =
          (let a = (\<Sum>(i, c) \<leftarrow> go_range (cid @ '':'' @ k). c * 2 ^ (i mod 16)) mod 2 ^ 31
           in if a = 0 then 0x12345678 else a)
     \<and> (\<forall>j. keystate cid k (Suc j) =
            drop_bit 1 (keystate cid k j) XOR (- (keystate cid k j AND 1) AND 0x48200004))"
proof -
  let ?cs = "map snd (go_range data)"
  let ?out = "decryptLoop (makeKey cid k) ?cs"
  have ret: "decryptData cid k data = Inr ?out"
    by (simp add: decryptData_def)
  have len: "length ?out = length (go_range data)"
    by (simp add: length_decryptLoop)
  have ascii: "(\<forall>c\<in>set data. (of_char c :: nat) < 128) \<longrightarrow> length ?out = length data"
  proof
    assume "\<forall>c\<in>set data. (of_char c :: nat) < 128"
    then have "length (go_range data) = length data"
      by (simp add: go_range_ascii)
    with len show "length ?out = length data" by simp
  qed
  have rng: "\<forall>b\<in>set ?out. 0x20 \<le> unat b \<and> unat b < 0x7E"
  proof
    fix b assume "b \<in> set ?out"
    then obtain j where j: "j < length ?out" and b: "b = ?out ! j"
      by (auto simp: in_set_conv_nth)
    from j have "j < length ?cs" by (simp add: length_decryptLoop)
    then have "b = combine ((advance ^^ Suc j) (makeKey cid k)) (?cs ! j)"
      unfolding b by (rule decryptLoop_nth)
    moreover have "unat ((word_of_nat (?cs ! j) :: 32 word) - 0x20
        + (advance ^^ Suc j) (makeKey cid k)) mod 0x5E < 0x5E"
      by simp
    ultimately show "0x20 \<le> unat b \<and> unat b < 0x7E"
      by (simp only: unat_combine) simp
  qed
  have byte: "\<forall>j<length ?out.
           unat (?out ! j) =
             unat ((word_of_nat (snd (go_range data ! j)) :: 32 word) - 0x20 + keystate cid k (Suc j))
               mod 0x5E + 0x20
         \<and> (0x20 \<le> snd (go_range data ! j) \<longrightarrow>
             unat (?out ! j) =
               (snd (go_range data ! j) - 0x20 + unat (keystate cid k (Suc j))) mod 0x5E + 0x20)"
  proof (intro allI impI)
    fix j assume "j < length ?out"
    then have j: "j < length (go_range data)" by (simp add: length_decryptLoop)
    then have jc: "j < length ?cs" by simp
    have c: "?cs ! j = snd (go_range data ! j)" using j by simp
    have o: "?out ! j = combine (keystate cid k (Suc j)) (snd (go_range data ! j))"
      unfolding keystate_def using decryptLoop_nth [OF jc, of "makeKey cid k"] c by simp
    have "go_range data ! j \<in> set (range_from 0 (map of_char data))"
      using j unfolding go_range_def by (rule nth_mem)
    then have ub: "snd (go_range data ! j) \<le> 1114111" by (rule range_from_bound)
    show "unat (?out ! j) =
             unat ((word_of_nat (snd (go_range data ! j)) :: 32 word) - 0x20 + keystate cid k (Suc j))
               mod 0x5E + 0x20
         \<and> (0x20 \<le> snd (go_range data ! j) \<longrightarrow>
             unat (?out ! j) =
               (snd (go_range data ! j) - 0x20 + unat (keystate cid k (Suc j))) mod 0x5E + 0x20)"
      unfolding o using unat_combine_printable [OF _ ub keystate_bound]
      by (simp only: unat_combine) simp
  qed
  have seed: "unat (keystate cid k 0) =
          (let a = (\<Sum>(i, c) \<leftarrow> go_range (cid @ '':'' @ k). c * 2 ^ (i mod 16)) mod 2 ^ 31
           in if a = 0 then 0x12345678 else a)"
    unfolding keystate_def by (simp only: funpow_0 unat_makeKey)
  have step: "\<forall>j. keystate cid k (Suc j) =
            drop_bit 1 (keystate cid k j) XOR (- (keystate cid k j AND 1) AND 0x48200004)"
    unfolding keystate_def by (simp add: advance_def)
  from ret len ascii rng byte seed step show ?thesis by blast
qed

theorem decryptData_spec_witness:
  "\<exists>out. decryptData ''0000_1'' ''AAAAAAAAAAAAAAAAAAAAAAAAAAAAAAAA'' ''!!!'' = Inr out
     \<and> (\<forall>c\<in>set ''!!!''. (of_char c :: nat) < 128)
     \<and> length out = 3
     \<and> out ! 0 \<in> set out
     \<and> 0x20 \<le> unat (out ! 0) \<and> unat (out ! 0) < 0x7E
     \<and> 0x20 \<le> snd (go_range ''!!!'' ! 0)
     \<and> unat (out ! 0) =
          (snd (go_range ''!!!'' ! 0) - 0x20
            + unat (keystate ''0000_1'' ''AAAAAAAAAAAAAAAAAAAAAAAAAAAAAAAA'' (Suc 0))) mod 0x5E + 0x20"
proof -
  from decryptData_spec [of "''0000_1''" "''AAAAAAAAAAAAAAAAAAAAAAAAAAAAAAAA''" "''!!!''"]
  obtain out where
        ret: "decryptData ''0000_1'' ''AAAAAAAAAAAAAAAAAAAAAAAAAAAAAAAA'' ''!!!'' = Inr out"
    and asc: "(\<forall>c\<in>set ''!!!''. (of_char c :: nat) < 128) \<longrightarrow> length out = length ''!!!''"
    and rng: "\<forall>b\<in>set out. 0x20 \<le> unat b \<and> unat b < 0x7E"
    and byte: "\<forall>j<length out. 
           unat (out ! j) =
             unat ((word_of_nat (snd (go_range ''!!!'' ! j)) :: 32 word) - 0x20 
                + keystate ''0000_1'' ''AAAAAAAAAAAAAAAAAAAAAAAAAAAAAAAA'' (Suc j))
               mod 0x5E + 0x20
         \<and> (0x20 \<le> snd (go_range ''!!!'' ! j) \<longrightarrow>
             unat (out ! j) =
               (snd (go_range ''!!!'' ! j) - 0x20 
                 + unat (keystate ''0000_1'' ''AAAAAAAAAAAAAAAAAAAAAAAAAAAAAAAA'' (Suc j))) mod 0x5E + 0x20)"
    by blast
  have a: "\<forall>c\<in>set ''!!!''. (of_char c :: nat) < 128" by simp
  with asc have l: "length out = 3" by simp
  then have m: "out ! 0 \<in> set out" by simp
  have g: "0x20 \<le> snd (go_range ''!!!'' ! 0)" by (simp add: go_range_def)
  have p: "0 < length out" using l by simp
  from byte [rule_format, OF p] g have "unat (out ! 0) =
          (snd (go_range ''!!!'' ! 0) - 0x20
            + unat (keystate ''0000_1'' ''AAAAAAAAAAAAAAAAAAAAAAAAAAAAAAAA'' (Suc 0))) mod 0x5E + 0x20"
    by blast
  with ret a l m rng g show ?thesis by blast
qed

section \<open>Go integer arithmetic\<close>

lemma go_div_small: "0 \<le> a \<Longrightarrow> a < b \<Longrightarrow> go_div a b = 0"
  by (simp add: go_div_def)

lemma go_div_nonneg: "0 \<le> a \<Longrightarrow> 0 < b \<Longrightarrow> go_div a b = a div b"
  by (auto simp: go_div_def sgn_if)

lemma go_mod_nonneg: "0 \<le> a \<Longrightarrow> 0 < b \<Longrightarrow> go_mod a b = a mod b"
  by (simp add: go_mod_def go_div_nonneg minus_mult_div_eq_mod)

text \<open>\<open>wrap64\<close> leaves a value in range alone, and depends on the residue modulo \<open>2^64\<close> only.\<close>

lemma wrap64_id: "- (2 ^ 63) \<le> x \<Longrightarrow> x < 2 ^ 63 \<Longrightarrow> wrap64 x = x"
  by (simp add: wrap64_def)





section \<open>The BookWalker descrambler: small images\<close>

lemma anchor_zero: "anchor 0 js pattern = Inl (Panic DivideByZero)"
  by (simp add: anchor_def modE_def andThen_def)

lemma anchor_nonzero: "rects \<noteq> 0 \<Longrightarrow> \<exists>i. anchor rects js pattern = Inr i"
  by (simp add: anchor_def modE_def andThen_def Let_def)

lemma generateRectangles_small:
  assumes "0 \<le> srcWidth" "0 \<le> srcHeight" "srcWidth < 64 \<or> srcHeight < 64"
  shows "generateRectangles srcWidth srcHeight pattern = Inl (Panic DivideByZero)"
proof (cases "srcWidth < 64")
  case True
  with assms have "go_div srcWidth rectangleWidth = 0"
    by (simp add: rectangleWidth_def go_div_small)
  then show ?thesis
    by (simp add: generateRectangles_def Let_def anchor_zero andThen_def)
next
  case False
  with assms have h: "srcHeight < 64" by simp
  with assms have y: "go_div srcHeight rectangleHeight = 0"
    by (simp add: rectangleHeight_def go_div_small)
  from False have "1 \<le> srcWidth div 64"
    by (simp add: pos_imp_zdiv_pos_iff)
  with False have "go_div srcWidth rectangleWidth \<noteq> 0"
    by (simp add: rectangleWidth_def go_div_nonneg)
  then obtain i where "anchor (go_div srcWidth rectangleWidth) jsd pattern = Inr i"
    using anchor_nonzero by blast
  then show ?thesis
    using y by (simp add: generateRectangles_def Let_def anchor_zero andThen_def)
qed

lemma foldl_rune_sum:
  "foldl (\<lambda>res (i, c). res + int c) a ps = a + (\<Sum>(i, c) \<leftarrow> ps. int c)"
  by (induction ps arbitrary: a) (auto simp: add.assoc)

lemma rune_sum_nonneg: "0 \<le> (\<Sum>(i, c) \<leftarrow> ps. int c)"
  by (induction ps) auto

lemma getPattern_eq:
  "getPattern filePath = (\<Sum>(i, c) \<leftarrow> go_range filePath. int c) mod 4 + 1"
  unfolding getPattern_def patternCount_def foldl_rune_sum
  using rune_sum_nonneg [of "go_range filePath"] by (simp add: go_mod_nonneg)

lemma getPattern_range: "1 \<le> getPattern filePath \<and> getPattern filePath \<le> 4"
  unfolding getPattern_eq 
  using pos_mod_bound [of 4 "\<Sum>(i, c) \<leftarrow> go_range filePath. int c"] by simp

lemma bwInv_empty: "bwInv emptyDescrambler"
  by (simp add: bwInv_def emptyDescrambler_def patternCount_def)

lemma bwInv_step:
  assumes inv: "bwInv ds"
    and call: "bwDescramble ds filename decoded dummyWidth dummyHeight = (res, ds')"
  shows "bwInv ds'"
proof (cases decoded)
  case (Inl err)
  with call inv show ?thesis by (simp add: bwDescramble_def)
next
  case (Inr img)
  let ?p = "getPattern filename"
  have pr: "1 \<le> ?p" "?p \<le> 4" using getPattern_range [of filename] by simp_all
  from inv have len: "length ds = 4" by (simp add: bwInv_def)
  with pr have ix: "index ds (?p - 1) = Inr (ds ! nat (?p - 1))"
    by (simp add: index_def)
  show ?thesis
  proof (cases "ds ! nat (?p - 1) = None \<or> Dx img \<noteq> col_srcWidth (the (ds ! nat (?p - 1)))
                  \<or> Dy img \<noteq> col_srcHeight (the (ds ! nat (?p - 1)))")
    case False
    with call Inr ix inv show ?thesis
      by (auto simp: bwDescramble_def Let_def)
  next
    case True
    show ?thesis
    proof (cases "generateRectangles (Dx img) (Dy img) ?p")
      case (Inl e)
      with call Inr ix True inv show ?thesis
        by (auto simp: bwDescramble_def Let_def)
    next
      case gen: (Inr rects)
      let ?new = "\<lparr>col_rectangles = rects,
                                  col_srcWidth = Dx img, col_srcHeight = Dy img,
                                  col_dstWidth = Dx img - dummyWidth,
                                  col_dstHeight = Dy img - dummyHeight\<rparr>"
      from call Inr ix True gen have ds': "ds' = ds[nat (?p - 1) := Some ?new]"
        by (auto simp: bwDescramble_def Let_def)
      have pk: "int (nat (?p - 1)) + 1 = ?p" using pr by simp
      show ?thesis
        unfolding bwInv_def ds'
      proof (intro conjI allI impI)
        show "length (ds[nat (?p - 1) := Some ?new]) = 4" using len by simp
      next
        fix k c
        assume k: "k < 4" and c: "ds[nat (?p - 1) := Some ?new] ! k = Some c"
        show "\<exists>rects. generateRectangles (col_srcWidth c) (col_srcHeight c) (int k + 1) = Inr rects"
        proof (cases "k = nat (?p - 1)")
          case True
          with c len k have "c = ?new" by simp
          with gen True pk show ?thesis by simp
        next
          case False
          with c have "ds ! k = Some c" by simp
          with inv k show ?thesis by (simp add: bwInv_def)
        qed
      qed
    qed
  qed
qed

lemma bwReachable_inv: "bwReachable ds \<Longrightarrow> bwInv ds"
  by (induction rule: bwReachable.induct) (auto intro: bwInv_empty bwInv_step)

text \<open>
  Claim C9. An image that decodes with a width or a height below 64 pixels makes the
  rectangle generation of the BookWalker descrambler take a remainder by zero (\<open>rectsX\<close>
  or \<open>rectsY\<close> is 0): \<open>generateRectangles\<close> panics, and so does \<open>Descramble\<close> on every
  descrambler a program can hold, instead of returning an error. So \<open>Descramble\<close> returns
  only for images of at least 64 pixels in each dimension.
\<close>

theorem bwDescramble_small_image_panics:
  assumes reach: "bwReachable ds"
    and dims: "0 \<le> Dx img" "0 \<le> Dy img" "Dx img < 64 \<or> Dy img < 64"
  shows "generateRectangles (Dx img) (Dy img) (getPattern filename) = Inl (Panic DivideByZero)
       \<and> bwDescramble ds filename (Inr img) dummyWidth dummyHeight = (Inl (Panic DivideByZero), ds)"
proof -
  let ?p = "getPattern filename"
  have gen: "generateRectangles (Dx img) (Dy img) ?p = Inl (Panic DivideByZero)"
    using dims by (rule generateRectangles_small)
  have inv: "bwInv ds" using reach by (rule bwReachable_inv)
  have pr: "1 \<le> ?p" "?p \<le> 4" using getPattern_range [of filename] by simp_all
  from inv have len: "length ds = 4" by (simp add: bwInv_def)
  with pr have ix: "index ds (?p - 1) = Inr (ds ! nat (?p - 1))"
    by (simp add: index_def)
  have miss: "ds ! nat (?p - 1) = None \<or> Dx img \<noteq> col_srcWidth (the (ds ! nat (?p - 1)))
                  \<or> Dy img \<noteq> col_srcHeight (the (ds ! nat (?p - 1)))"
  proof (rule ccontr)
    assume "\<not> ?thesis"
    then obtain c where c: "ds ! nat (?p - 1) = Some c"
      and same: "col_srcWidth c = Dx img" "col_srcHeight c = Dy img"
      by auto
    have "nat (?p - 1) < 4" using pr by simp
    with inv c obtain rects where
      "generateRectangles (col_srcWidth c) (col_srcHeight c) (int (nat (?p - 1)) + 1) = Inr rects"
      unfolding bwInv_def by blast
    moreover have "int (nat (?p - 1)) + 1 = ?p" using pr by simp
    ultimately show False using gen same by simp
  qed
  have "bwDescramble ds filename (Inr img) dummyWidth dummyHeight = (Inl (Panic DivideByZero), ds)"
    using ix miss gen by (auto simp: bwDescramble_def Let_def)
  with gen show ?thesis by simp
qed

theorem bwDescramble_small_image_panics_witness:
  "bwReachable emptyDescrambler
   \<and> 0 \<le> Dx \<lparr>img_min = (0, 0), img_max = (63, 100), img_pix = (\<lambda>_. 0)\<rparr>
   \<and> 0 \<le> Dy \<lparr>img_min = (0, 0), img_max = (63, 100), img_pix = (\<lambda>_. 0)\<rparr>
   \<and> Dx \<lparr>img_min = (0, 0), img_max = (63, 100), img_pix = (\<lambda>_. 0)\<rparr> < 64
   \<and> bwDescramble emptyDescrambler ''1/0'' 
         (Inr \<lparr>img_min = (0, 0), img_max = (63, 100), img_pix = (\<lambda>_. 0)\<rparr>) 0 0
       = (Inl (Panic DivideByZero), emptyDescrambler)"
proof -
  let ?img = "\<lparr>img_min = (0, 0), img_max = (63, 100), img_pix = (\<lambda>_. 0)\<rparr>"
  have d: "0 \<le> Dx ?img" "0 \<le> Dy ?img" "Dx ?img < 64 \<or> Dy ?img < 64"
    by (simp_all add: Dx_def Dy_def)
  from bwDescramble_small_image_panics [OF bwEmpty d, of "''1/0''" 0 0] d bwEmpty
  show ?thesis by (simp add: Dx_def)
qed

section \<open>The BookWalker descrambler: patterns and the 640 by 896 image\<close>

lemma generate_640x896_1:
  "case generateRectangles 640 896 1 of Inl e \<Rightarrow> False | Inr rects \<Rightarrow> tiling640x896 rects"
  by code_simp

lemma generate_640x896_2:
  "case generateRectangles 640 896 2 of Inl e \<Rightarrow> False | Inr rects \<Rightarrow> tiling640x896 rects"
  by code_simp

lemma generate_640x896_3:
  "case generateRectangles 640 896 3 of Inl e \<Rightarrow> False | Inr rects \<Rightarrow> tiling640x896 rects"
  by code_simp

lemma generate_640x896_4:
  "case generateRectangles 640 896 4 of Inl e \<Rightarrow> False | Inr rects \<Rightarrow> tiling640x896 rects"
  by code_simp

lemma distinct_tiles: "distinct (tiles 10 14)"
  by code_simp

lemma length_tiles: "length (tiles 10 14) = 140"
  by code_simp

lemma set_tiles:
  "set (tiles nx ny) = {(s * 64, t * 64) | s t. 0 \<le> s \<and> s < nx \<and> 0 \<le> t \<and> t < ny}"
  by (auto simp: tiles_def)

lemma tiles_cover:
  assumes "0 \<le> x" "x < 640" "0 \<le> y" "y < 896"
  shows "\<exists>!p. p \<in> set (tiles 10 14) \<and> fst p \<le> x \<and> x < fst p + 64 \<and> snd p \<le> y \<and> y < snd p + 64"
proof -
  let ?P = "\<lambda>p. p \<in> set (tiles 10 14) \<and> fst p \<le> x \<and> x < fst p + 64 \<and> snd p \<le> y \<and> y < snd p + 64"
  have "?P ((x div 64) * 64, (y div 64) * 64)"
    using assms unfolding set_tiles by auto
  moreover have "p = ((x div 64) * 64, (y div 64) * 64)" if "?P p" for p
  proof -
    from that obtain s t where p: "p = (s * 64, t * 64)" unfolding set_tiles by auto
    with that have "s * 64 \<le> x" "x < s * 64 + 64" "t * 64 \<le> y" "y < t * 64 + 64" by simp_all
    then have "x div 64 = s" "y div 64 = t" by linarith+
    with p show ?thesis by simp
  qed
  ultimately show ?thesis by blast
qed

lemma mset_of_distinct_subset:
  assumes "distinct xs" "distinct ys" "set xs \<subseteq> set ys" "length xs = length ys"
  shows "mset xs = mset ys"
proof -
  have "card (set xs) = card (set ys)"
    using assms by (simp add: distinct_card)
  with assms(3) have "set xs = set ys"
    by (simp add: card_subset_eq)
  with assms(1,2) show ?thesis
    by (simp add: set_eq_iff_mset_eq_distinct)
qed

lemma tiling640x896_spec:
  assumes "tiling640x896 rects"
  shows "length rects = 140 \<and> (\<forall>r\<in>set rects. r_width r = 64 \<and> r_height r = 64)
       \<and> mset (map r_dst rects) = mset (tiles 10 14)
       \<and> mset (map r_src rects) = mset (tiles 10 14)"
proof -
  from assms have l: "length rects = 140"
    and sz: "list_all (\<lambda>r. r_width r = 64 \<and> r_height r = 64) rects"
    and d: "map r_dst rects = tiles 10 14"
    and ds: "distinct (map r_src rects)"
    and sub: "list_all (\<lambda>q. q \<in> set (tiles 10 14)) (map r_src rects)"
    by (simp_all add: tiling640x896_def)
  from sub have "set (map r_src rects) \<subseteq> set (tiles 10 14)"
    by (auto simp: list_all_iff)
  with ds distinct_tiles have "mset (map r_src rects) = mset (tiles 10 14)"
    by (rule mset_of_distinct_subset) (simp add: l length_tiles)
  with l sz d show ?thesis by (simp add: list_all_iff)
qed

lemma generate_640x896:
  assumes "pattern \<in> {1, 2, 3, 4}"
  shows "\<exists>rects. generateRectangles 640 896 pattern = Inr rects \<and> tiling640x896 rects"
proof -
  from assms consider "pattern = 1" | "pattern = 2" | "pattern = 3" | "pattern = 4" by auto
  then show ?thesis
  proof cases
    case 1
    with generate_640x896_1 show ?thesis by (simp split: sum.splits)
  next
    case 2
    with generate_640x896_2 show ?thesis by (simp split: sum.splits)
  next
    case 3
    with generate_640x896_3 show ?thesis by (simp split: sum.splits)
  next
    case 4
    with generate_640x896_4 show ?thesis by (simp split: sum.splits)
  qed
qed

text \<open>
  Claim C4. The BookWalker pattern of a filename is the sum of its character code points
  modulo 4, plus 1: it lies in {1, 2, 3, 4}, and it is 4 when the sum is 3 modulo 4. For a
  640 by 896 source image (no remainder in either axis) and each of the four patterns, the
  rectangle list has exactly (640/64) * (896/64) = 140 rectangles, each 64 by 64; their
  destination positions (and their source positions) are a permutation of the identity
  tile positions, which cover every pixel of the image exactly once.
\<close>

theorem getPattern_and_640x896_tiling:
  "getPattern filename = (\<Sum>(i, c) \<leftarrow> go_range filename. int c) mod 4 + 1
   \<and> getPattern filename \<in> {1, 2, 3, 4}
   \<and> ((\<Sum>(i, c) \<leftarrow> go_range filename. int c) mod 4 = 3 \<longrightarrow> getPattern filename = 4)
   \<and> (\<forall>pattern\<in>{1, 2, 3, 4}. \<exists>rects.
         generateRectangles 640 896 pattern = Inr rects
         \<and> length rects = 140
         \<and> (\<forall>r\<in>set rects. r_width r = 64 \<and> r_height r = 64)
         \<and> mset (map r_dst rects) = mset (tiles 10 14)
         \<and> mset (map r_src rects) = mset (tiles 10 14))
   \<and> (\<forall>x y. 0 \<le> x \<and> x < 640 \<and> 0 \<le> y \<and> y < 896 \<longrightarrow>
         (\<exists>!p. p \<in> set (tiles 10 14)
               \<and> fst p \<le> x \<and> x < fst p + 64 \<and> snd p \<le> y \<and> y < snd p + 64))"
proof -
  have eq: "getPattern filename = (\<Sum>(i, c) \<leftarrow> go_range filename. int c) mod 4 + 1"
    by (rule getPattern_eq)
  have "1 \<le> getPattern filename \<and> getPattern filename \<le> 4"
    by (rule getPattern_range)
  then have rng: "getPattern filename \<in> {1, 2, 3, 4}" by auto
  have four: "(\<Sum>(i, c) \<leftarrow> go_range filename. int c) mod 4 = 3 \<longrightarrow> getPattern filename = 4"
    unfolding eq by simp
  have gen: "\<forall>pattern\<in>{1, 2, 3, 4}. \<exists>rects.
         generateRectangles 640 896 pattern = Inr rects
         \<and> length rects = 140
         \<and> (\<forall>r\<in>set rects. r_width r = 64 \<and> r_height r = 64)
         \<and> mset (map r_dst rects) = mset (tiles 10 14)
         \<and> mset (map r_src rects) = mset (tiles 10 14)"
  proof
    fix pattern :: int assume "pattern \<in> {1, 2, 3, 4}"
    then obtain rects where "generateRectangles 640 896 pattern = Inr rects" "tiling640x896 rects"
      using generate_640x896 by blast
    with tiling640x896_spec [of rects] show "\<exists>rects.
         generateRectangles 640 896 pattern = Inr rects
         \<and> length rects = 140
         \<and> (\<forall>r\<in>set rects. r_width r = 64 \<and> r_height r = 64)
         \<and> mset (map r_dst rects) = mset (tiles 10 14)
         \<and> mset (map r_src rects) = mset (tiles 10 14)"
      by blast
  qed
  have cover: "\<forall>x y. 0 \<le> x \<and> x < 640 \<and> 0 \<le> y \<and> y < 896 \<longrightarrow>
         (\<exists>!p. p \<in> set (tiles 10 14)
               \<and> fst p \<le> x \<and> x < fst p + 64 \<and> snd p \<le> y \<and> y < snd p + 64)"
    using tiles_cover by blast
  from eq rng four gen cover show ?thesis by blast
qed

theorem getPattern_and_640x896_tiling_witness:
  "(\<Sum>(i, c) \<leftarrow> go_range ''1/3''. int c) mod 4 = 3
   \<and> getPattern ''1/3'' = 4
   \<and> (4 :: int) \<in> {1, 2, 3, 4}
   \<and> (\<exists>rects. generateRectangles 640 896 (getPattern ''1/3'') = Inr rects \<and> length rects = 140
         \<and> mset (map r_dst rects) = mset (tiles 10 14))
   \<and> (\<exists>!p. p \<in> set (tiles 10 14)
               \<and> fst p \<le> 100 \<and> 100 < fst p + 64 \<and> snd p \<le> 700 \<and> 700 < snd p + 64)"
proof -
  note t = getPattern_and_640x896_tiling [of "''1/3''"]
  have s: "(\<Sum>(i, c) \<leftarrow> go_range ''1/3''. int c) mod 4 = 3"
    by (simp add: go_range_def)
  with t have p: "getPattern ''1/3'' = 4" by blast
  from t have "\<exists>rects. generateRectangles 640 896 4 = Inr rects \<and> length rects = 140
         \<and> mset (map r_dst rects) = mset (tiles 10 14)"
    by blast
  moreover
  have pre: "0 \<le> (100::int) \<and> (100::int) < 640 \<and> 0 \<le> (700::int) \<and> (700::int) < 896"
    by simp
  from t have "\<forall>x y. 0 \<le> x \<and> x < 640 \<and> 0 \<le> y \<and> y < 896 \<longrightarrow>
         (\<exists>!p. p \<in> set (tiles 10 14)
               \<and> fst p \<le> x \<and> x < fst p + 64 \<and> snd p \<le> y \<and> y < snd p + 64)"
    by blast
  with pre have "\<exists>!p. p \<in> set (tiles 10 14)
               \<and> fst p \<le> 100 \<and> 100 < fst p + 64 \<and> snd p \<le> 700 \<and> 700 < snd p + 64"
    by blast
  ultimately show ?thesis using s p by simp
qed

section \<open>The BookWalker descrambler: the size of the returned image\<close>

lemma SetPix_bounds [simp]:
  "img_min (SetPix res x y c) = img_min res" "img_max (SetPix res x y c) = img_max res"
  by (simp_all add: SetPix_def)

lemma foldl_bounds:
  assumes "\<And>r x. img_min (f r x) = img_min r \<and> img_max (f r x) = img_max r"
  shows "img_min (foldl f res xs) = img_min res \<and> img_max (foldl f res xs) = img_max res"
  using assms by (induction xs arbitrary: res) simp_all

lemma blitRect_bounds:
  "img_min (blitRect img res rect) = img_min res \<and> img_max (blitRect img res rect) = img_max res"
  unfolding blitRect_def
  by (rule foldl_bounds, rule foldl_bounds) simp

lemma blit_bounds:
  "img_min (blit img col) = (min 0 (col_dstWidth col), min 0 (col_dstHeight col))
   \<and> img_max (blit img col) = (max 0 (col_dstWidth col), max 0 (col_dstHeight col))"
proof -
  have "img_min (blit img col) = img_min (NewRGBA (Rect 0 0 (col_dstWidth col) (col_dstHeight col)))
      \<and> img_max (blit img col) = img_max (NewRGBA (Rect 0 0 (col_dstWidth col) (col_dstHeight col)))"
    unfolding blit_def by (rule foldl_bounds) (rule blitRect_bounds)
  then show ?thesis by (simp add: NewRGBA_def Rect_def)
qed

lemma blit_size:
  "Dx (blit img col) = \<bar>col_dstWidth col\<bar> \<and> Dy (blit img col) = \<bar>col_dstHeight col\<bar>"
  using blit_bounds [of img col] by (auto simp: Dx_def Dy_def)

text \<open>The two paths of \<open>Descramble\<close> through the cache.\<close>

lemma bwDescramble_miss:
  assumes "index ds (getPattern filename - 1) = Inr col"
    and "col = None \<or> Dx img \<noteq> col_srcWidth (the col) \<or> Dy img \<noteq> col_srcHeight (the col)"
    and "generateRectangles (Dx img) (Dy img) (getPattern filename) = Inr rects"
    and "new = \<lparr>col_rectangles = rects, col_srcWidth = Dx img, col_srcHeight = Dy img,
                 col_dstWidth = Dx img - dummyWidth, col_dstHeight = Dy img - dummyHeight\<rparr>"
  shows "bwDescramble ds filename (Inr img) dummyWidth dummyHeight
           = (Inr (blit img new), ds[nat (getPattern filename - 1) := Some new])"
  using assms by (auto simp: bwDescramble_def Let_def)

lemma bwDescramble_hit:
  assumes "index ds (getPattern filename - 1) = Inr (Some c)"
    and "Dx img = col_srcWidth c" "Dy img = col_srcHeight c"
  shows "bwDescramble ds filename (Inr img) dummyWidth dummyHeight = (Inr (blit img c), ds)"
  using assms by (simp add: bwDescramble_def Let_def)

text \<open>
  Claim C5, at the failing input. Two pages of a title have the same filename pattern and
  the same 640 by 896 size; the first has no dummy margin, the second has a dummy margin of
  8 by 8. The second call of \<open>Descramble\<close> finds the collection of the first in the cache,
  with the destination size of the first, and returns an image of 640 by 896, not of
  632 by 888.
\<close>

theorem bwDescramble_stale_dummy:
  "\<exists>res1 ds1 res2 ds2.
     bwDescramble emptyDescrambler ''1/3''
        (Inr \<lparr>img_min = (0, 0), img_max = (640, 896), img_pix = (\<lambda>_. 0)\<rparr>) 0 0 = (Inr res1, ds1)
     \<and> bwDescramble ds1 ''1/3''
        (Inr \<lparr>img_min = (0, 0), img_max = (640, 896), img_pix = (\<lambda>_. 0)\<rparr>) 8 8 = (Inr res2, ds2)
     \<and> Dx res2 = 640 \<and> Dy res2 = 896
     \<and> (Dx res2, Dy res2) \<noteq> (640 - 8, 896 - 8)"
proof -
  let ?img = "\<lparr>img_min = (0, 0), img_max = (640, 896), img_pix = (\<lambda>_. 0)\<rparr>"
  have p: "getPattern ''1/3'' = 4"
    by (simp add: getPattern_eq go_range_def)
  have d: "Dx ?img = 640" "Dy ?img = 896"
    by (simp_all add: Dx_def Dy_def)
  obtain rects where g: "generateRectangles 640 896 4 = Inr rects"
    using generate_640x896 [of 4] by auto
  let ?new = "\<lparr>col_rectangles = rects, col_srcWidth = Dx ?img, col_srcHeight = Dy ?img,
                 col_dstWidth = Dx ?img - 0, col_dstHeight = Dy ?img - 0\<rparr>"
  let ?ds1 = "emptyDescrambler[nat (getPattern ''1/3'' - 1) := Some ?new]"
  have i0: "index emptyDescrambler (getPattern ''1/3'' - 1) = Inr None"
    by (simp add: p index_def emptyDescrambler_def patternCount_def)
  have c1: "bwDescramble emptyDescrambler ''1/3'' (Inr ?img) 0 0 = (Inr (blit ?img ?new), ?ds1)"
    by (rule bwDescramble_miss [OF i0]) (simp_all add: p d g)
  have i1: "index ?ds1 (getPattern ''1/3'' - 1) = Inr (Some ?new)"
    by (simp add: p index_def emptyDescrambler_def patternCount_def)
  have c2: "bwDescramble ?ds1 ''1/3'' (Inr ?img) 8 8 = (Inr (blit ?img ?new), ?ds1)"
    by (rule bwDescramble_hit [OF i1]) simp_all
  have sz: "Dx (blit ?img ?new) = 640" "Dy (blit ?img ?new) = 896"
    using blit_size [of ?img ?new] by (simp_all add: d)
  from c1 c2 sz show ?thesis by simp
qed

theorem bwDescramble_stale_dummy_witness:
  "\<exists>ds1 res2 ds2.
     bwDescramble ds1 ''1/3''
        (Inr \<lparr>img_min = (0, 0), img_max = (640, 896), img_pix = (\<lambda>_. 0)\<rparr>) 8 8 = (Inr res2, ds2)
     \<and> Dx res2 = 640 \<and> Dy res2 = 896"
  using bwDescramble_stale_dummy by blast

text \<open>
  On the path that fills the cache, the returned image has the size
  \<open>(sw - dummy_w, sh - dummy_h)\<close>, for dummy values that are not larger than the image.
\<close>

lemma bwDescramble_miss_size:
  assumes "index ds (getPattern filename - 1) = Inr col"
    and "col = None \<or> Dx img \<noteq> col_srcWidth (the col) \<or> Dy img \<noteq> col_srcHeight (the col)"
    and "bwDescramble ds filename (Inr img) dummyWidth dummyHeight = (Inr res, ds')"
    and "dummyWidth \<le> Dx img" "dummyHeight \<le> Dy img"
  shows "Dx res = Dx img - dummyWidth \<and> Dy res = Dy img - dummyHeight"
proof -
  from assms(1-3) obtain rects where
    g: "generateRectangles (Dx img) (Dy img) (getPattern filename) = Inr rects"
    by (cases "generateRectangles (Dx img) (Dy img) (getPattern filename)")
       (auto simp: bwDescramble_def Let_def)
  let ?new = "\<lparr>col_rectangles = rects, col_srcWidth = Dx img, col_srcHeight = Dy img,
                 col_dstWidth = Dx img - dummyWidth, col_dstHeight = Dy img - dummyHeight\<rparr>"
  from bwDescramble_miss [OF assms(1,2) g, of ?new dummyWidth dummyHeight] assms(3)
  have "res = blit img ?new" by simp
  with blit_size [of img ?new] assms(4,5) show ?thesis by simp
qed

section \<open>The BinB descrambler: the cache index\<close>

lemma initLoop_collections:
  "initLoop n i ds = Inr ds' \<Longrightarrow> ds_rectangleCollections ds' = ds_rectangleCollections ds"
proof (induction n arbitrary: i ds)
  case 0
  then show ?case by simp
next
  case (Suc n)
  from Suc.prems obtain newType d where
    "initLoop n (i + 1) (ds\<lparr>ds_keyType := newType, ds_data := ds_data ds @ [d]\<rparr>) = Inr ds'"
    by (auto simp: andThen_def split: sum.splits if_splits)
  from Suc.IH [OF this] show ?case by simp
qed

lemma NewDescrambler_collections:
  assumes "NewDescrambler ctbl ptbl = Inr ds"
  shows "length (ds_rectangleCollections ds) = length ctbl"
proof -
  from assms have "init \<lparr>ds_Ctbl = ctbl, ds_Ptbl = ptbl, ds_keyType = typeUnset, ds_data = [],
       ds_rectangleCollections = replicate (length ctbl) (replicate (length ptbl) None)\<rparr> = Inr ds"
    by (simp add: NewDescrambler_def split: if_splits)
  then show ?thesis
    unfolding init_def by (auto dest: initLoop_collections)
qed

lemma setCollection_length [simp]:
  "length (ds_rectangleCollections (setCollection ds c p v)) = length (ds_rectangleCollections ds)"
  by (simp add: setCollection_def)

lemma Descramble_collections:
  assumes "Descramble ds filename decoded = (res, ds')"
  shows "length (ds_rectangleCollections ds') = length (ds_rectangleCollections ds)"
  using assms
  by (auto simp: Descramble_def Let_def
           split: sum.splits prod.splits if_splits scrambleKeyType.splits error.splits)

lemma dsReachable_collections:
  "dsReachable ctbl ptbl ds \<Longrightarrow> length (ds_rectangleCollections ds) = length ctbl"
  by (induction rule: dsReachable.induct)
     (simp_all add: NewDescrambler_collections Descramble_collections)

lemma cpIndex_fold_nonneg:
  "0 \<le> c \<Longrightarrow> 0 \<le> p \<Longrightarrow>
   0 \<le> fst (foldl (\<lambda>(c, p) (i, chr). if i mod 2 = 0 then (c, p + int chr) else (c + int chr, p))
              (c, p) xs)
   \<and> 0 \<le> snd (foldl (\<lambda>(c, p) (i, chr). if i mod 2 = 0 then (c, p + int chr) else (c + int chr, p))
              (c, p) xs)"
  by (induction xs arbitrary: c p) (auto split: prod.splits)

lemma cpIndex_range:
  "0 \<le> fst (cpIndex filename) \<and> fst (cpIndex filename) < 8
   \<and> 0 \<le> snd (cpIndex filename) \<and> snd (cpIndex filename) < 8"
proof -
  let ?r = "foldl (\<lambda>(c, p) (i, chr). if i mod 2 = 0 then (c, p + int chr) else (c + int chr, p))
              (0, 0) (go_range filename)"
  have nn: "0 \<le> fst ?r \<and> 0 \<le> snd ?r"
    using cpIndex_fold_nonneg [of 0 0 "go_range filename"] by simp
  have "cpIndex filename = (go_mod (fst ?r) 8, go_mod (snd ?r) 8)"
    by (simp add: cpIndex_def Let_def split: prod.splits)
  with nn show ?thesis by (simp add: go_mod_nonneg)
qed

lemma cpIndex_07: "cpIndex ''07'' = (7, 0)"
  by (simp add: cpIndex_def go_range_def go_mod_def go_div_def)

lemma Descramble_short_table:
  assumes "length (ds_rectangleCollections ds) < 8"
  shows "Descramble ds ''07'' (Inr img) = (Inl (Panic IndexOutOfRange), ds)"
  using assms by (simp add: Descramble_def cpIndex_07 index_def andThen_def)

text \<open>
  Claim C10. \<open>Descramble\<close> indexes the cache of rectangle collections (and the per-key data)
  with \<open>c\<close> and \<open>p\<close> in [0, 8), computed from the filename. \<open>NewDescrambler\<close> accepts tables
  of any equal length above zero, and the cache has one row per entry of the tables. For
  every descrambler built from tables of fewer than 8 entries there is a filename with
  which \<open>Descramble\<close>, on any image that decodes, panics with an index out of range instead
  of returning an error.
\<close>

theorem Descramble_panics_on_short_tables:
  assumes "dsReachable ctbl ptbl ds" and "length ctbl < 8"
  shows "(\<forall>filename. 0 \<le> fst (cpIndex filename) \<and> fst (cpIndex filename) < 8
                    \<and> 0 \<le> snd (cpIndex filename) \<and> snd (cpIndex filename) < 8)
       \<and> length (ds_rectangleCollections ds) = length ctbl
       \<and> (\<exists>filename. \<forall>img. Descramble ds filename (Inr img) = (Inl (Panic IndexOutOfRange), ds))"
proof -
  from assms(1) have len: "length (ds_rectangleCollections ds) = length ctbl"
    by (rule dsReachable_collections)
  with assms(2) have "\<forall>img. Descramble ds ''07'' (Inr img) = (Inl (Panic IndexOutOfRange), ds)"
    by (simp add: Descramble_short_table)
  then have "\<exists>filename. \<forall>img. Descramble ds filename (Inr img) = (Inl (Panic IndexOutOfRange), ds)"
    by blast
  with len cpIndex_range show ?thesis by blast
qed

lemma NewDescrambler_one_entry:
  "NewDescrambler [''=1-1+0-AAA''] [''=1-1-0-AAA''] =
     Inr \<lparr>ds_Ctbl = [''=1-1+0-AAA''], ds_Ptbl = [''=1-1-0-AAA''], ds_keyType = type1,
          ds_data = [Type1Data \<lparr>d1_h = 1, d1_v = 1, d1_padding = 0,
                                d1_src = ''AAA'', d1_dst = ''AAA''\<rparr>],
          ds_rectangleCollections = [[None]]\<rparr>"
  by code_simp

theorem Descramble_panics_on_short_tables_witness:
  "dsReachable [''=1-1+0-AAA''] [''=1-1-0-AAA'']
      \<lparr>ds_Ctbl = [''=1-1+0-AAA''], ds_Ptbl = [''=1-1-0-AAA''], ds_keyType = type1,
          ds_data = [Type1Data \<lparr>d1_h = 1, d1_v = 1, d1_padding = 0,
                                d1_src = ''AAA'', d1_dst = ''AAA''\<rparr>],
          ds_rectangleCollections = [[None]]\<rparr>
   \<and> length [''=1-1+0-AAA''] < 8
   \<and> (\<exists>filename. \<forall>img. Descramble 
      \<lparr>ds_Ctbl = [''=1-1+0-AAA''], ds_Ptbl = [''=1-1-0-AAA''], ds_keyType = type1,
          ds_data = [Type1Data \<lparr>d1_h = 1, d1_v = 1, d1_padding = 0,
                                d1_src = ''AAA'', d1_dst = ''AAA''\<rparr>],
          ds_rectangleCollections = [[None]]\<rparr> filename (Inr img)
        = (Inl (Panic IndexOutOfRange), 
      \<lparr>ds_Ctbl = [''=1-1+0-AAA''], ds_Ptbl = [''=1-1-0-AAA''], ds_keyType = type1,
          ds_data = [Type1Data \<lparr>d1_h = 1, d1_v = 1, d1_padding = 0,
                                d1_src = ''AAA'', d1_dst = ''AAA''\<rparr>],
          ds_rectangleCollections = [[None]]\<rparr>))"
proof -
  have r: "dsReachable [''=1-1+0-AAA''] [''=1-1-0-AAA'']
      \<lparr>ds_Ctbl = [''=1-1+0-AAA''], ds_Ptbl = [''=1-1-0-AAA''], ds_keyType = type1,
          ds_data = [Type1Data \<lparr>d1_h = 1, d1_v = 1, d1_padding = 0,
                                d1_src = ''AAA'', d1_dst = ''AAA''\<rparr>],
          ds_rectangleCollections = [[None]]\<rparr>"
    by (rule dsNew) (rule NewDescrambler_one_entry)
  have l: "length [''=1-1+0-AAA''] < 8" by simp
  from Descramble_panics_on_short_tables [OF r l] r l show ?thesis by blast
qed

section \<open>The BinB descrambler: initialisation\<close>

text \<open>
  Claim C2, at the failing input. The key tables \<open>[""]\<close> and \<open>[""]\<close> have the same length,
  above zero, and their one pair parses as neither scheme, so the claim has
  \<open>NewDescrambler\<close> return an error. \<open>init\<close> reads \<open>ds.Ctbl[i][0]\<close> before any check of the
  key: on the empty key that is an index out of range, and \<open>NewDescrambler\<close> panics instead
  of returning the error "Unknown key type." it has for every other key that starts with
  neither \<open>=\<close> nor a digit.
\<close>

theorem NewDescrambler_empty_key_panics:
  "NewDescrambler [''''] [''''] = Inl (Panic IndexOutOfRange)
   \<and> NewDescrambler [''?''] [''''] = Inl (Err ''Unknown key type.'')"
  by (simp add: NewDescrambler_def init_def initPair_def andThen_def index_def bothE_def
        startsWithEq_def startsWithDigit_def isDigit_def)

subsection \<open>Keys that are not empty\<close>

text \<open>
  The rest of this section shows that the empty key is what separates the code from the
  conditions of \<open>specAccepts\<close>: first the two key patterns, then \<open>processType1\<close> and
  \<open>processType2\<close>, then the loop of \<open>init\<close>.
\<close>

lemma specAccepts_empty_key: "\<not> specAccepts [''''] ['''']"
  by (simp add: specAccepts_def pairType_def type1PairOK_def type2KeyOK_def reType1Key_def reType2Key_def digits_def)

lemma digits_Some:
  assumes "digits s = Some (d, r)"
  shows "d \<noteq> [] \<and> list_all isDigit d \<and> s = d @ r \<and> isDigit (hd s)"
proof -
  from assms have d: "d = takeWhile isDigit s" and r: "r = dropWhile isDigit s"
    and ne: "d \<noteq> []"
    by (auto simp: digits_def Let_def split: if_splits)
  have a: "list_all isDigit d"
    unfolding d by (auto simp: list_all_iff dest: set_takeWhileD)
  have b: "s = d @ r" unfolding d r by simp
  have c: "isDigit (hd s)"
  proof (cases s)
    case Nil
    with d ne show ?thesis by simp
  next
    case (Cons x xs)
    with d ne show ?thesis by (cases "isDigit x") simp_all
  qed
  from ne a b c show ?thesis by blast
qed

lemma Atoi_fold_nonneg:
  "list_all isDigit s \<Longrightarrow> 0 \<le> a \<Longrightarrow> 0 \<le> foldl (\<lambda>a c. 10 * a + (int (of_char c) - 48)) a s"
  by (induction s arbitrary: a) (auto simp: isDigit_def)

lemma Atoi_nonneg: "list_all isDigit s \<Longrightarrow> 0 \<le> Atoi s"
  by (simp add: Atoi_def Atoi_fold_nonneg)

lemma reType2Key_Some:
  assumes "reType2Key k = Some g"
  shows "k \<noteq> [] \<and> isDigit (hd k) \<and> length g = 4 \<and> 0 \<le> Atoi (g ! 1) \<and> 0 \<le> Atoi (g ! 2)"
proof -
  from assms obtain g1 r1 where d1: "digits k = Some (g1, r1)"
    by (auto simp: reType2Key_def split: option.splits)
  with assms obtain s2 where r1: "r1 = CHR ''-'' # s2"
    by (auto simp: reType2Key_def split: option.splits list.splits if_splits)
  with assms d1 obtain g2 r2 where d2: "digits s2 = Some (g2, r2)"
    by (auto simp: reType2Key_def split: option.splits list.splits if_splits)
  with assms d1 r1 obtain g3 where g: "g = [k, g1, g2, g3]"
    by (auto simp: reType2Key_def split: option.splits list.splits if_splits)
  from digits_Some [OF d1] digits_Some [OF d2] g show ?thesis
    by (auto simp: Atoi_nonneg)
qed

lemma reType1Key_Some:
  assumes "reType1Key k = Some g"
  shows "k \<noteq> [] \<and> hd k = CHR ''=''"
  using assms by (cases k) (auto simp: reType1Key_def split: if_splits)

lemma eq_not_digit: "\<not> isDigit CHR ''=''"
  by (simp add: isDigit_def)

lemma mapE_Inr:
  "(\<And>x. x \<in> set xs \<Longrightarrow> \<exists>y. f x = Inr y) \<Longrightarrow> \<exists>ys. mapE f xs = Inr ys"
proof (induction xs)
  case Nil
  then show ?case by simp
next
  case (Cons x xs)
  from Cons.prems [of x] obtain y where "f x = Inr y" by auto
  moreover from Cons obtain ys where "mapE f xs = Inr ys" by auto
  ultimately show ?case by (simp add: andThen_def)
qed

lemma andThen_Inr_ex: "\<exists>x. m = Inr x \<Longrightarrow> \<exists>d. andThen m (\<lambda>x. Inr (F x)) = Inr d"
  by (auto simp: andThen_def)

lemma type2Piece_Inr:
  assumes "0 \<le> i" "i * 2 + 1 < int (length dat)"
  shows "\<exists>y. type2Piece dat f g h j i = Inr y"
  using assms by (auto simp: type2Piece_def andThen_def index_def Let_def split: prod.splits)

lemma type2_counts:
  assumes g: "reType2Key k = Some g" and small: "smallKey k" and n: "n = Atoi (g ! 1) * Atoi (g ! 2)"
  shows "0 \<le> n \<and> wrap64 n = n \<and> wrap64 (n * 2) = n * 2"
proof -
  let ?nx = "Atoi (g ! 1)" and ?ny = "Atoi (g ! 2)"
  from reType2Key_Some [OF g] have nn: "0 \<le> ?nx" "0 \<le> ?ny" by simp_all
  from small g have sm: "?nx < 2 ^ 31" "?ny < 2 ^ 31" by (simp_all add: smallKey_def)
  have p0: "0 \<le> ?nx * ?ny" using nn by simp
  have "?nx * ?ny \<le> (2 ^ 31 - 1) * (2 ^ 31 - 1)"
    using nn sm by (intro mult_mono) simp_all
  then have p1: "?nx * ?ny < 2 ^ 62" by simp
  have w1: "wrap64 n = n"
    unfolding n using p0 p1 by (intro wrap64_id) simp_all
  have w2: "wrap64 (n * 2) = n * 2"
    unfolding n using p0 p1 by (intro wrap64_id) simp_all
  from p0 w1 w2 n show ?thesis by simp
qed

lemma processType2_ok:
  assumes ok: "type2KeyOK k" and small: "smallKey k"
  shows "\<exists>d. processType2 k = Inr d"
proof -
  from ok obtain g where g: "reType2Key k = Some g"
    and len: "int (length (g ! 3)) = 2 * Atoi (g ! 1) * Atoi (g ! 2)"
    by (auto simp: type2KeyOK_def split: option.splits)
  define n where "n = Atoi (g ! 1) * Atoi (g ! 2)"
  from type2_counts [OF g small n_def]
  have n0: "0 \<le> n" and w1: "wrap64 n = n" and w2: "wrap64 (n * 2) = n * 2" by simp_all
  from len have len': "int (length (g ! 3)) = n * 2" by (simp add: n_def)
  have pieces: "\<exists>ps. mapE (type2Piece (g ! 3) f' g' h' j') [0..n - 1] = Inr ps"
    for f' g' h' j'
  proof (rule mapE_Inr)
    fix i assume "i \<in> set [0..n - 1]"
    then have "0 \<le> i" "i * 2 + 1 < int (length (g ! 3))" using len' by auto
    then show "\<exists>y. type2Piece (g ! 3) f' g' h' j' i = Inr y" by (rule type2Piece_Inr)
  qed
  show ?thesis
    unfolding processType2_def g option.case Let_def n_def [symmetric] w1 w2
    using len' n0 by (simp del: One_nat_def) (rule andThen_Inr_ex, rule pieces)
qed

lemma processType2_bad:
  assumes bad: "\<not> type2KeyOK k" and small: "smallKey k"
  shows "\<exists>m. processType2 k = Inl (Err m)"
proof (cases "reType2Key k")
  case None
  then show ?thesis by (simp add: processType2_def)
next
  case (Some g)
  define n where "n = Atoi (g ! 1) * Atoi (g ! 2)"
  from type2_counts [OF Some small n_def]
  have n0: "0 \<le> n" and w1: "wrap64 n = n" and w2: "wrap64 (n * 2) = n * 2" by simp_all
  from bad Some have len': "int (length (g ! 3)) \<noteq> n * 2"
    by (simp add: type2KeyOK_def n_def mult.commute mult.left_commute)
  show ?thesis
    unfolding processType2_def Some option.case Let_def n_def [symmetric] w1 w2
    using len' by simp
qed

lemma processType1_result:
  assumes "0 \<le> i" "nat i < length (ds_Ctbl ds)" "nat i < length (ds_Ptbl ds)"
  shows "if type1PairOK (ds_Ctbl ds ! nat i) (ds_Ptbl ds ! nat i)
         then \<exists>d. processType1 ds i = Inr d
         else \<exists>m. processType1 ds i = Inl (Err m)"
proof -
  from assms have ic: "index (ds_Ctbl ds) i = Inr (ds_Ctbl ds ! nat i)"
    and ip: "index (ds_Ptbl ds) i = Inr (ds_Ptbl ds ! nat i)"
    by (auto simp: index_def)
  show ?thesis
  proof (cases "reType1Key (ds_Ctbl ds ! nat i)")
    case None
    then show ?thesis
      by (simp add: processType1_def type1PairOK_def andThen_def ic ip)
  next
    case c: (Some gc)
    show ?thesis
    proof (cases "reType1Key (ds_Ptbl ds ! nat i)")
      case None
      with c show ?thesis
        by (simp add: processType1_def type1PairOK_def andThen_def ic ip)
    next
      case p: (Some gp)
      from c p show ?thesis
        by (auto simp: processType1_def type1PairOK_def andThen_def ic ip Let_def
                 simp del: One_nat_def)
    qed
  qed
qed

lemma type1PairOK_starts:
  assumes "type1PairOK c p"
  shows "c \<noteq> [] \<and> hd c = CHR ''='' \<and> p \<noteq> [] \<and> hd p = CHR ''=''"
proof -
  from assms obtain gc gp where "reType1Key c = Some gc" "reType1Key p = Some gp"
    by (auto simp: type1PairOK_def split: option.splits)
  then show ?thesis using reType1Key_Some by blast
qed

lemma type2KeyOK_starts:
  assumes "type2KeyOK k"
  shows "k \<noteq> [] \<and> isDigit (hd k)"
proof -
  from assms obtain g where "reType2Key k = Some g"
    by (auto simp: type2KeyOK_def split: option.splits)
  then show ?thesis using reType2Key_Some by blast
qed

lemma startsWithEq_nonempty: "k \<noteq> [] \<Longrightarrow> startsWithEq k = Inr (hd k = CHR ''='')"
  by (cases k) (simp_all add: startsWithEq_def index_def andThen_def)

lemma startsWithDigit_nonempty: "k \<noteq> [] \<Longrightarrow> startsWithDigit k = Inr (isDigit (hd k))"
  by (cases k) (simp_all add: startsWithDigit_def index_def andThen_def)

text \<open>
  What the first part of the loop body of \<open>init\<close> gives for a pair of keys that are not
  empty and whose Type-2 counts are small: the scheme of the pair when the pair is well
  formed, and an error otherwise; it does not panic.
\<close>

lemma initPair_result:
  assumes ix: "0 \<le> i" "nat i < length (ds_Ctbl ds)" "nat i < length (ds_Ptbl ds)"
    and ne: "ds_Ctbl ds ! nat i \<noteq> []" "ds_Ptbl ds ! nat i \<noteq> []"
    and sm: "smallKey (ds_Ctbl ds ! nat i)" "smallKey (ds_Ptbl ds ! nat i)"
  shows "case pairType (ds_Ctbl ds ! nat i) (ds_Ptbl ds ! nat i) of
           Some t \<Rightarrow> t \<noteq> typeUnset \<and> (\<exists>d. initPair ds i = Inr (t, Inr d))
         | None \<Rightarrow> (\<exists>m. initPair ds i = Inl (Err m)) \<or> (\<exists>t m. initPair ds i = Inr (t, Inl (Err m)))"
proof -
  let ?c = "ds_Ctbl ds ! nat i" and ?p = "ds_Ptbl ds ! nat i"
  from ix have ic: "index (ds_Ctbl ds) i = Inr ?c" and ip: "index (ds_Ptbl ds) i = Inr ?p"
    by (auto simp: index_def)
  note se = startsWithEq_nonempty [OF ne(1)] startsWithEq_nonempty [OF ne(2)]
  note sd = startsWithDigit_nonempty [OF ne(1)] startsWithDigit_nonempty [OF ne(2)]
  show ?thesis
  proof (cases "hd ?c = CHR ''='' \<and> hd ?p = CHR ''=''")
    case True
    then have b1: "bothE startsWithEq ?c ?p = Inr True"
      by (simp add: bothE_def andThen_def se)
    from True have n2: "\<not> type2KeyOK ?c"
      using type2KeyOK_starts [of ?c] eq_not_digit by auto
    show ?thesis
    proof (cases "type1PairOK ?c ?p")
      case ok: True
      with processType1_result [OF ix] obtain d where "processType1 ds i = Inr d" by auto
      with ok show ?thesis
        by (simp add: pairType_def initPair_def andThen_def ic ip b1)
    next
      case bad: False
      with processType1_result [OF ix] obtain m where "processType1 ds i = Inl (Err m)" by auto
      with bad n2 show ?thesis
        by (simp add: pairType_def initPair_def andThen_def ic ip b1)
    qed
  next
    case False
    then have b1: "bothE startsWithEq ?c ?p = Inr False"
      by (auto simp: bothE_def andThen_def se)
    from False have n1: "\<not> type1PairOK ?c ?p"
      using type1PairOK_starts [of ?c ?p] by auto
    show ?thesis
    proof (cases "isDigit (hd ?c) \<and> isDigit (hd ?p)")
      case dig: True
      then have b2: "bothE startsWithDigit ?c ?p = Inr True"
        by (simp add: bothE_def andThen_def sd)
      show ?thesis
      proof (cases "type2KeyOK ?c")
        case cok: True
        from processType2_ok [OF cok sm(1)] obtain dc where dc: "processType2 ?c = Inr dc" by auto
        show ?thesis
        proof (cases "type2KeyOK ?p")
          case pok: True
          from processType2_ok [OF pok sm(2)] obtain dp where "processType2 ?p = Inr dp" by auto
          with dc cok pok n1 show ?thesis
            by (simp add: pairType_def initPair_def andThen_def ic ip b1 b2)
        next
          case pbad: False
          from processType2_bad [OF pbad sm(2)] obtain m where "processType2 ?p = Inl (Err m)"
            by auto
          with dc pbad n1 show ?thesis
            by (simp add: pairType_def initPair_def andThen_def ic ip b1 b2)
        qed
      next
        case cbad: False
        from processType2_bad [OF cbad sm(1)] obtain m where "processType2 ?c = Inl (Err m)"
          by auto
        with cbad n1 show ?thesis
          by (simp add: pairType_def initPair_def andThen_def ic ip b1 b2)
      qed
    next
      case nodig: False
      then have b2: "bothE startsWithDigit ?c ?p = Inr False"
        by (auto simp: bothE_def andThen_def sd)
      from nodig have n2: "\<not> (type2KeyOK ?c \<and> type2KeyOK ?p)"
        using type2KeyOK_starts by blast
      with n1 show ?thesis
        by (simp add: pairType_def initPair_def andThen_def ic ip b1 b2)
    qed
  qed
qed

lemma all_less_Suc_shift: "(\<forall>j<Suc n. P j) \<longleftrightarrow> P 0 \<and> (\<forall>j<n. P (Suc j))"
  by (auto simp: less_Suc_eq_0_disj)

lemma pairsOK_Suc:
  assumes "pairType (ctbl ! i) (ptbl ! i) = Some t" "t \<noteq> typeUnset"
  shows "pairsOK kt ctbl ptbl i (Suc n)
         \<longleftrightarrow> (kt = typeUnset \<or> kt = t) \<and> pairsOK t ctbl ptbl (Suc i) n"
  using assms by (auto simp: pairsOK_def all_less_Suc_shift)

lemma pairsOK_bad:
  assumes "pairType (ctbl ! i) (ptbl ! i) = None"
  shows "\<not> pairsOK kt ctbl ptbl i (Suc n)"
  using assms by (auto simp: pairsOK_def all_less_Suc_shift)

lemma initLoop_result:
  assumes "0 \<le> i" "nat i + n \<le> length (ds_Ctbl ds)" "length (ds_Ctbl ds) = length (ds_Ptbl ds)"
    and "\<forall>k\<in>set (ds_Ctbl ds) \<union> set (ds_Ptbl ds). k \<noteq> [] \<and> smallKey k"
  shows "if pairsOK (ds_keyType ds) (ds_Ctbl ds) (ds_Ptbl ds) (nat i) n
         then \<exists>ds'. initLoop n i ds = Inr ds'
         else \<exists>m. initLoop n i ds = Inl (Err m)"
  using assms
proof (induction n arbitrary: i ds)
  case 0
  then show ?case by (simp add: pairsOK_def)
next
  case (Suc n)
  let ?C = "ds_Ctbl ds" and ?P = "ds_Ptbl ds"
  from Suc.prems have ix: "0 \<le> i" "nat i < length ?C" "nat i < length ?P" by simp_all
  then have mem: "?C ! nat i \<in> set ?C" "?P ! nat i \<in> set ?P" by simp_all
  with Suc.prems(4) have ne: "?C ! nat i \<noteq> []" "?P ! nat i \<noteq> []"
    and sm: "smallKey (?C ! nat i)" "smallKey (?P ! nat i)"
    by blast+
  note pr = initPair_result [OF ix ne sm]
  show ?case
  proof (cases "pairType (?C ! nat i) (?P ! nat i)")
    case None
    with pr have "(\<exists>m. initPair ds i = Inl (Err m)) \<or> (\<exists>t m. initPair ds i = Inr (t, Inl (Err m)))"
      by simp
    then have "\<exists>m. initLoop (Suc n) i ds = Inl (Err m)"
      by (auto simp: andThen_def)
    with pairsOK_bad [OF None] show ?thesis by simp
  next
    case (Some t)
    with pr obtain d where t: "t \<noteq> typeUnset" and ip: "initPair ds i = Inr (t, Inr d)"
      by auto
    note step = pairsOK_Suc [OF Some t, of "ds_keyType ds" n]
    show ?thesis
    proof (cases "ds_keyType ds \<noteq> typeUnset \<and> ds_keyType ds \<noteq> t")
      case True
      with ip have "initLoop (Suc n) i ds = Inl (Err ''Mixed key types.'')"
        by (simp add: andThen_def)
      with True step show ?thesis by auto
    next
      case False
      let ?ds = "ds\<lparr>ds_keyType := t, ds_data := ds_data ds @ [d]\<rparr>"
      from False ip have rec: "initLoop (Suc n) i ds = initLoop n (i + 1) ?ds"
        by (auto simp: andThen_def)
      have n1: "nat (i + 1) = Suc (nat i)" using ix(1) by simp
      have "if pairsOK (ds_keyType ?ds) (ds_Ctbl ?ds) (ds_Ptbl ?ds) (nat (i + 1)) n
            then \<exists>ds'. initLoop n (i + 1) ?ds = Inr ds'
            else \<exists>m. initLoop n (i + 1) ?ds = Inl (Err m)"
        using Suc.prems by (intro Suc.IH) (simp_all add: n1)
      with False step rec show ?thesis by (auto simp: n1)
    qed
  qed
qed

text \<open>
  On key tables whose keys are not empty and whose Type-2 counts are small,
  \<open>NewDescrambler\<close> returns a descrambler when the conditions of the specification hold
  and an error when they do not: the error conditions of claim C2 are those of the code,
  apart from the empty key (and counts that overflow).
\<close>

lemma NewDescrambler_accepts_iff:
  assumes "\<forall>k\<in>set ctbl \<union> set ptbl. k \<noteq> [] \<and> smallKey k"
  shows "if specAccepts ctbl ptbl
         then \<exists>ds. NewDescrambler ctbl ptbl = Inr ds
         else \<exists>m. NewDescrambler ctbl ptbl = Inl (Err m)"
proof (cases "length ctbl = length ptbl \<and> ctbl \<noteq> []")
  case False
  then show ?thesis by (auto simp: specAccepts_def NewDescrambler_def)
next
  case True
  let ?ds0 = "\<lparr>ds_Ctbl = ctbl, ds_Ptbl = ptbl, ds_keyType = typeUnset, ds_data = [],
       ds_rectangleCollections = replicate (length ctbl) (replicate (length ptbl) None)\<rparr>"
  from True have "ptbl \<noteq> []" by auto
  with True have nd: "NewDescrambler ctbl ptbl = initLoop (length ctbl) 0 ?ds0"
    by (simp add: NewDescrambler_def init_def)
  have "if pairsOK (ds_keyType ?ds0) (ds_Ctbl ?ds0) (ds_Ptbl ?ds0) (nat 0) (length ctbl)
        then \<exists>ds'. initLoop (length ctbl) 0 ?ds0 = Inr ds'
        else \<exists>m. initLoop (length ctbl) 0 ?ds0 = Inl (Err m)"
    using True assms by (intro initLoop_result) simp_all
  moreover have "pairsOK typeUnset ctbl ptbl 0 (length ctbl) \<longleftrightarrow> specAccepts ctbl ptbl"
    using True by (auto simp: pairsOK_def specAccepts_def)
  ultimately show ?thesis by (simp add: nd)
qed

section \<open>The BinB descrambler: Type-1 rectangle derivation\<close>












lemma setCollection_fields [simp]:
  "ds_data (setCollection ds c p v) = ds_data ds"
  "ds_Ctbl (setCollection ds c p v) = ds_Ctbl ds"
  "ds_Ptbl (setCollection ds c p v) = ds_Ptbl ds"
  "ds_keyType (setCollection ds c p v) = ds_keyType ds"
  by (simp_all add: setCollection_def)











text \<open>
  A padding that wraps. \<open>NewDescrambler\<close> accepts the padding \<open>2^62 + 1\<close>; on a 400 by 400
  image \<open>2 h padding\<close> wraps to \<open>2 - 2^63\<close> and the working dimensions are negative.
\<close>

lemma rectanglesType1_padding_wraps:
  "andThen (NewDescrambler [''=1-1+4611686018427387905-AAA''] [''=1-1-4611686018427387905-AAA''])
     (\<lambda>ds. rectanglesType1 ds 0 0 400 400) =
   Inr \<lparr>col_rectangles =
          [\<lparr>r_src = (4611686018427387905, 4611686018427387905), r_dst = (0, 0),
            r_width = - 9223372036854775410, r_height = - 9223372036854775410\<rparr>],
        col_srcWidth = 400, col_srcHeight = 400,
        col_dstWidth = - 9223372036854775410, col_dstHeight = - 9223372036854775410\<rparr>"
  by code_simp

text \<open>
  When the image is too small for the padded layout the working dimensions stay
  \<open>(sw, sh)\<close>, but the padding still offsets the positions read from the scrambled image:
  the cell (1, 1) of the example on a 100 by 100 image.
\<close>

lemma rectanglesType1_small_image_keeps_padding:
  "rectanglesType1 exampleDescrambler 1 1 100 100 =
     Inr \<lparr>col_rectangles = [\<lparr>r_src = (10, 10), r_dst = (0, 0), r_width = 100, r_height = 100\<rparr>],
          col_srcWidth = 100, col_srcHeight = 100, col_dstWidth = 100, col_dstHeight = 100\<rparr>"
  by code_simp

section \<open>The download manager: the exits of \<open>Download\<close>\<close>

lemma spawnerFinish_nil: "spawnerFinish ec dlCount = None \<longleftrightarrow> ec = [] \<and> dlCount \<noteq> 0"
  by (simp add: spawnerFinish_def split: list.splits)

lemma deferred_log: "snd (deferred r pv log) = log @ [Some (Err pv)]"
  by (simp add: deferred_def split: option.splits)

lemma deferred_panics: "\<exists>p. fst (deferred r pv log) = Inl p"
  by (simp add: deferred_def split: option.splits)

lemma cleanupAndReturn_returns:
  assumes "run_cleanup r arg = None"
  shows "cleanupAndReturn r arg paths err = (Inr (paths, err), [arg])"
  using assms by (simp add: cleanupAndReturn_def)

text \<open>The exits of \<open>Download\<close>, one for each way through its body, when \<open>Cleanup\<close> returns.\<close>

lemma Download_cases:
  assumes cl: "\<forall>a. run_cleanup r a = None"
    and call: "Download r maxWorkers zipit override = Some (out, log)"
  shows "(\<exists>pv. beforeLoop r maxWorkers zipit override = Inl pv
               \<and> out = Inl (Panic (PanicValue pv)) \<and> log = [Some (Err pv)])
       \<or> (\<exists>z w. beforeLoop r maxWorkers zipit override = Inr (z, w)
               \<and> mainLoop (run_events r) [] = Some OnInterrupt
               \<and> out = Inr ([], Some ErrInterrupted) \<and> log = [Some ErrInterrupted])
       \<or> (\<exists>z w err paths. beforeLoop r maxWorkers zipit override = Inr (z, w)
               \<and> mainLoop (run_events r) [] = Some (OnDone (Some err) paths)
               \<and> out = Inr ([], Some err) \<and> log = [Some err])
       \<or> (\<exists>z w err paths. beforeLoop r maxWorkers zipit override = Inr (z, w)
               \<and> mainLoop (run_events r) [] = Some (OnDone None paths)
               \<and> z \<and> run_zip r paths = Some err
               \<and> out = Inr (paths, Some err) \<and> log = [Some err])
       \<or> (\<exists>z w paths. beforeLoop r maxWorkers zipit override = Inr (z, w)
               \<and> mainLoop (run_events r) [] = Some (OnDone None paths)
               \<and> (z \<longrightarrow> run_zip r paths = None)
               \<and> out = Inr (paths, None) \<and> log = [None])"
proof (cases "beforeLoop r maxWorkers zipit override")
  case (Inl pv)
  with call cl show ?thesis
    by (auto simp: Download_def deferred_def)
next
  case (Inr zw)
  obtain z w where zw: "zw = (z, w)" by (cases zw)
  from call Inr zw obtain ex where ex: "mainLoop (run_events r) [] = Some ex"
    by (auto simp: Download_def split: option.splits)
  show ?thesis
  proof (cases ex)
    case OnInterrupt
    with call Inr zw ex cl show ?thesis
      by (auto simp: Download_def cleanupAndReturn_def)
  next
    case (OnDone e paths)
    show ?thesis
    proof (cases e)
      case (Some err)
      with call Inr zw ex OnDone cl show ?thesis
        by (auto simp: Download_def cleanupAndReturn_def)
    next
      case None
      show ?thesis
      proof (cases "z \<and> run_zip r paths \<noteq> None")
        case True
        then obtain err where "run_zip r paths = Some err" by auto
        with True call Inr zw ex OnDone None cl show ?thesis
          by (auto simp: Download_def cleanupAndReturn_def)
      next
        case False
        with call Inr zw ex OnDone None cl show ?thesis
          by (auto simp: Download_def cleanupAndReturn_def split: if_splits option.splits)
      qed
    qed
  qed
qed

text \<open>
  Claim C6 as stated fails: in the call \<open>runWithoutArtifact\<close> no artifact is produced (no
  path arrives on \<open>got\<close> and the returned list is empty), no error occurs, and
  \<open>Cleanup\<close> is called with nil.
\<close>

theorem Download_nil_without_artifact_counterexample:
  "Download runWithoutArtifact 4 False False = Some (Inr ([], None), [None])
   \<and> mainLoop (run_events runWithoutArtifact) [] = Some (OnDone None [])"
  by (simp add: Download_def runWithoutArtifact_def beforeLoop_def spawnerFinish_def
        cleanupAndReturn_def)

text \<open>
  Claim C6, amended. Every call of \<open>Download\<close> that leaves the function, by a return or by
  a panic, calls \<open>Cleanup\<close> exactly once on its way out, provided \<open>Cleanup\<close> itself returns.
  The argument is nil iff \<open>Download\<close> returns a nil error, and that is iff no error
  occurred: nothing before the main loop panicked, the main loop received the nil message
  of the spawner before any interrupt, and packaging, when asked for, succeeded. The run
  need not have produced an artifact.
\<close>

theorem Download_cleanup_once:
  assumes cl: "\<forall>a. run_cleanup r a = None"
    and call: "Download r maxWorkers zipit override = Some (out, log)"
  shows "length log = 1
       \<and> (log = [None] \<longleftrightarrow> (\<exists>paths. out = Inr (paths, None)))
       \<and> (log = [None] \<longleftrightarrow>
            (\<exists>z w paths. beforeLoop r maxWorkers zipit override = Inr (z, w)
                \<and> mainLoop (run_events r) [] = Some (OnDone None paths)
                \<and> (z \<longrightarrow> run_zip r paths = None)))"
proof -
  note c = Download_cases [OF cl call]
  have one: "length log = 1" using c by auto
  have ret: "log = [None] \<longleftrightarrow> (\<exists>paths. out = Inr (paths, None))" using c by auto
  have why: "log = [None] \<longleftrightarrow>
            (\<exists>z w paths. beforeLoop r maxWorkers zipit override = Inr (z, w)
                \<and> mainLoop (run_events r) [] = Some (OnDone None paths)
                \<and> (z \<longrightarrow> run_zip r paths = None))"
    using c by auto
  from one ret why show ?thesis by blast
qed

theorem Download_cleanup_once_witness:
  "(\<forall>a. run_cleanup runZipFails a = None)
   \<and> Download runZipFails 4 False False = Some (Inr ([''title/0001.jpg''], None), [None])
   \<and> length [None :: error option] = 1
   \<and> (\<exists>z w paths. beforeLoop runZipFails 4 False False = Inr (z, w)
         \<and> mainLoop (run_events runZipFails) [] = Some (OnDone None paths)
         \<and> (z \<longrightarrow> run_zip runZipFails paths = None))"
proof -
  have cl: "\<forall>a. run_cleanup runZipFails a = None"
    by (simp add: runZipFails_def)
  have call: "Download runZipFails 4 False False = Some (Inr ([''title/0001.jpg''], None), [None])"
    by (simp add: Download_def runZipFails_def beforeLoop_def spawnerFinish_def
          cleanupAndReturn_def)
  from Download_cleanup_once [OF cl call] cl call show ?thesis by simp
qed

text \<open>
  The exits of \<open>Download\<close> that return an error: after an interrupt and after an error
  message of the spawner the list is empty; after a failure of packaging it is the list of
  the collected paths.
\<close>

lemma Download_error_exits:
  assumes call: "Download r maxWorkers zipit override = Some (Inr (paths, Some err), log)"
  shows "(mainLoop (run_events r) [] = Some OnInterrupt \<and> err = ErrInterrupted \<and> paths = [])
       \<or> (\<exists>ps. mainLoop (run_events r) [] = Some (OnDone (Some err) ps) \<and> paths = [])
       \<or> (\<exists>z w. beforeLoop r maxWorkers zipit override = Inr (z, w) \<and> z
              \<and> mainLoop (run_events r) [] = Some (OnDone None paths)
              \<and> run_zip r paths = Some err)"
  using call
  by (auto simp: Download_def cleanupAndReturn_def deferred_def
           split: sum.splits option.splits loopExit.splits if_splits prod.splits)

text \<open>
  Claim C7, at the failing input. In the call \<open>runZipFails\<close> with packaging asked for, one
  path arrives on \<open>got\<close>, the spawner reports nil and \<open>ZipDownloads\<close> returns an error:
  \<open>Download\<close> returns that error together with the path it collected (\<open>return dm.paths, err\<close>),
  where the claim has the list empty. The two other error returns of \<open>Download\<close> are
  \<open>return nil, err\<close>: when the same call is interrupted after the path arrived, or the
  spawner reports an error after it, the returned list is empty.
\<close>

theorem Download_zip_error_returns_paths:
  "Download runZipFails 4 True False =
     Some (Inr ([''title/0001.jpg''], Some (Err ''zip: write failed'')),
           [Some (Err ''zip: write failed'')])
   \<and> Download (runZipFails\<lparr>run_events := [Got ''title/0001.jpg'', Interrupt]\<rparr>) 4 True False =
     Some (Inr ([], Some ErrInterrupted), [Some ErrInterrupted])
   \<and> Download (runZipFails\<lparr>run_events := [Got ''title/0001.jpg'', Done (Some (Err ''404''))]\<rparr>)
        4 True False =
     Some (Inr ([], Some (Err ''404'')), [Some (Err ''404'')])"
  by (simp add: Download_def runZipFails_def beforeLoop_def spawnerFinish_def
        cleanupAndReturn_def)

text \<open>
  When \<open>Cleanup\<close> panics on the return path of \<open>Download\<close>, the deferred function calls it
  a second time.
\<close>

lemma Download_cleanup_twice_when_Cleanup_panics:
  "Download (runWithoutArtifact\<lparr>run_cleanup := (\<lambda>_. Some ''logout failed'')\<rparr>) 4 False False =
     Some (Inl (Panic (PanicValue ''logout failed'')), [None, Some (Err ''logout failed'')])"
  by (simp add: Download_def runWithoutArtifact_def beforeLoop_def spawnerFinish_def
        cleanupAndReturn_def deferred_def)

section \<open>The download manager: the worker bound\<close>

lemma poolInv_start: "poolInv W (poolStart thunks)"
  by (simp add: poolInv_def poolStart_def)

lemma poolInv_step:
  assumes "poolStep W s a = Some s'" "poolInv W s"
  shows "poolInv W s'"
  using assms
  by (cases a)
     (auto simp: poolStep_def poolInv_def split: list.splits if_splits option.splits)

lemma poolInv_run:
  "poolRun W s as = Some s' \<Longrightarrow> poolInv W s \<Longrightarrow> poolInv W s'"
  by (induction as arbitrary: s) (auto split: option.splits dest: poolInv_step)

lemma poolStep_admits:
  assumes "poolStep W s a = Some s'" "length (p_running s') > length (p_running s)"
  shows "a = Admit \<and> p_slots s < W \<and> p_slots s' = p_slots s + 1
         \<and> length (p_running s') = length (p_running s) + 1"
  using assms
  by (cases a) (auto simp: poolStep_def split: list.splits if_splits option.splits)

lemma poolStep_frees:
  assumes "poolStep W s a = Some s'" "p_slots s' < p_slots s"
  shows "a = Release \<and> p_leaving s > 0 \<and> p_slots s' = p_slots s - 1
         \<and> p_running s' = p_running s"
  using assms
  by (cases a) (auto simp: poolStep_def split: list.splits if_splits option.splits)

text \<open>
  Claim C8. In every run of the spawner and its workers with worker cap \<open>W\<close>, in every
  state a schedule can reach, at most \<open>W\<close> downloaders are in progress: each of them holds
  one of the \<open>W\<close> places of the counting semaphore \<open>workerLimiter\<close>. The number of
  downloaders in progress grows only by the step in which the spawner has put a value
  into a free place of the semaphore, and a place is freed only by a worker whose
  downloader has returned.
\<close>

theorem worker_bound:
  assumes "poolRun W (poolStart thunks) as = Some s"
  shows "length (p_running s) \<le> W
       \<and> length (p_running s) + p_leaving s \<le> p_slots s \<and> p_slots s \<le> W
       \<and> (\<forall>a s'. poolStep W s a = Some s' \<and> length (p_running s') > length (p_running s)
              \<longrightarrow> a = Admit \<and> p_slots s < W \<and> p_slots s' = p_slots s + 1)
       \<and> (\<forall>a s'. poolStep W s a = Some s' \<and> p_slots s' < p_slots s
              \<longrightarrow> a = Release \<and> p_leaving s > 0 \<and> p_running s' = p_running s)"
proof -
  have inv: "poolInv W s"
    using assms poolInv_start by (rule poolInv_run)
  then have bound: "length (p_running s) \<le> W"
    and held: "length (p_running s) + p_leaving s \<le> p_slots s \<and> p_slots s \<le> W"
    by (simp_all add: poolInv_def)
  have adm: "\<forall>a s'. poolStep W s a = Some s' \<and> length (p_running s') > length (p_running s)
              \<longrightarrow> a = Admit \<and> p_slots s < W \<and> p_slots s' = p_slots s + 1"
    using poolStep_admits by blast
  have rel: "\<forall>a s'. poolStep W s a = Some s' \<and> p_slots s' < p_slots s
              \<longrightarrow> a = Release \<and> p_leaving s > 0 \<and> p_running s' = p_running s"
    using poolStep_frees by blast
  from bound held adm rel show ?thesis by blast
qed

theorem worker_bound_witness:
  "poolRun 2 (poolStart [None, Some (Err ''e''), None]) [Admit, Admit] =
     Some \<lparr>p_todo = [None], p_slots = 2, p_running = [None, Some (Err ''e'')], p_leaving = 0,
           p_ec = [], p_dlCount = 2, p_spawner = AtLoop\<rparr>
   \<and> length [None, Some (Err ''e'')] \<le> (2 :: nat)
   \<and> poolStep 2 \<lparr>p_todo = [None], p_slots = 2, p_running = [None, Some (Err ''e'')], p_leaving = 0,
           p_ec = [], p_dlCount = 2, p_spawner = AtLoop\<rparr> Admit = None
   \<and> poolRun 2 (poolStart [None, Some (Err ''e''), None]) [Admit, Admit, Returns 0, Release, Admit] =
     Some \<lparr>p_todo = [], p_slots = 2, p_running = [Some (Err ''e''), None], p_leaving = 0,
           p_ec = [], p_dlCount = 3, p_spawner = AtLoop\<rparr>"
proof -
  have r: "poolRun 2 (poolStart [None, Some (Err ''e''), None]) [Admit, Admit] =
     Some \<lparr>p_todo = [None], p_slots = 2, p_running = [None, Some (Err ''e'')], p_leaving = 0,
           p_ec = [], p_dlCount = 2, p_spawner = AtLoop\<rparr>"
    by (simp add: poolStart_def poolStep_def)
  have n: "poolStep 2 \<lparr>p_todo = [None], p_slots = 2, p_running = [None, Some (Err ''e'')],
           p_leaving = 0, p_ec = [], p_dlCount = 2, p_spawner = AtLoop\<rparr> Admit = None"
    by (simp add: poolStep_def)
  have r2: "poolRun 2 (poolStart [None, Some (Err ''e''), None])
             [Admit, Admit, Returns 0, Release, Admit] =
     Some \<lparr>p_todo = [], p_slots = 2, p_running = [Some (Err ''e''), None], p_leaving = 0,
           p_ec = [], p_dlCount = 3, p_spawner = AtLoop\<rparr>"
    by (simp add: poolStart_def poolStep_def)
  from worker_bound [OF r] r n r2 show ?thesis by simp
qed

text \<open>The spawner sends nil on \<open>done\<close> only after it has spawned a downloader.\<close>

lemma poolStep_nil_message:
  assumes "poolStep W s a = Some s'" "p_spawner s = Sent None \<longrightarrow> p_dlCount s > 0"
  shows "p_spawner s' = Sent None \<longrightarrow> p_dlCount s' > 0"
  using assms
  by (cases a)
     (auto simp: poolStep_def spawnerFinish_nil split: list.splits if_splits option.splits)

lemma poolRun_nil_message:
  "poolRun W s as = Some s' \<Longrightarrow> (p_spawner s = Sent None \<longrightarrow> p_dlCount s > 0)
   \<Longrightarrow> p_spawner s' = Sent None \<longrightarrow> p_dlCount s' > 0"
proof (induction as arbitrary: s)
  case Nil
  then show ?case by simp
next
  case (Cons a as)
  from Cons.prems(1) obtain s1 where s1: "poolStep W s a = Some s1" "poolRun W s1 as = Some s'"
    by (auto split: option.splits)
  from poolStep_nil_message [OF s1(1) Cons.prems(2)] Cons.IH [OF s1(2)] show ?case by blast
qed

lemma spawner_nil_needs_downloader:
  assumes "poolRun W (poolStart thunks) as = Some s" "p_spawner s = Sent None"
  shows "p_dlCount s > 0"
  using poolRun_nil_message [OF assms(1)] assms(2) by (simp add: poolStart_def)

end
